theory Spec2Isabelle
  imports Complex_Main "HOL-Library.Stream" "HOL-Library.Multiset"
begin

section \<open>Data model of \<^verbatim>\<open>env.py\<close>\<close>

text \<open>
  Python and numpy floats are idealised as real numbers: rounding, overflow and underflow
  are not modelled. What is kept of floating point is division by zero, because the program
  reaches it: a division between two Python floats raises \<^verbatim>\<open>ZeroDivisionError\<close>, a
  division in which one operand is a numpy scalar or matrix raises nothing and yields
  an infinity or a not-a-number.
\<close>

datatype py_error = ZeroDivisionError | TypeError | ValueError | IndexError

datatype fval = Fin real | PInf | NInf | NaN

text \<open>numpy's true division of finite operands.\<close>

definition np_div :: "real \<Rightarrow> real \<Rightarrow> fval" where
  "np_div a b =
     (if b = 0 then (if 0 < a then PInf else if a < 0 then NInf else NaN)
      else Fin (a / b))"

text \<open>The comparison \<^verbatim>\<open>a > b\<close> of two floats; any comparison with a NaN is false.\<close>

fun fgt :: "fval \<Rightarrow> fval \<Rightarrow> bool" where
  "fgt (Fin a) (Fin b) = (b < a)"
| "fgt PInf (Fin b) = True"
| "fgt PInf NInf = True"
| "fgt (Fin a) NInf = True"
| "fgt a b = False"

fun fmul :: "fval \<Rightarrow> fval \<Rightarrow> fval" where
  "fmul (Fin a) (Fin b) = Fin (a * b)"
| "fmul NaN b = NaN"
| "fmul a NaN = NaN"
| "fmul (Fin a) PInf = (if 0 < a then PInf else if a < 0 then NInf else NaN)"
| "fmul (Fin a) NInf = (if 0 < a then NInf else if a < 0 then PInf else NaN)"
| "fmul PInf (Fin b) = (if 0 < b then PInf else if b < 0 then NInf else NaN)"
| "fmul NInf (Fin b) = (if 0 < b then NInf else if b < 0 then PInf else NaN)"
| "fmul PInf PInf = PInf"
| "fmul NInf NInf = PInf"
| "fmul PInf NInf = NInf"
| "fmul NInf PInf = NInf"

fun fadd :: "fval \<Rightarrow> fval \<Rightarrow> fval" where
  "fadd (Fin a) (Fin b) = Fin (a + b)"
| "fadd NaN b = NaN"
| "fadd a NaN = NaN"
| "fadd PInf NInf = NaN"
| "fadd NInf PInf = NaN"
| "fadd PInf b = PInf"
| "fadd a PInf = PInf"
| "fadd NInf b = NInf"
| "fadd a NInf = NInf"

type_synonym fvec = "fval \<times> fval"

text \<open>class \<^verbatim>\<open>Core\<close> and class \<^verbatim>\<open>Obstacle\<close>.\<close>

record core =
  core_x :: real
  core_y :: real
  clockwise :: bool
  Gamma :: real

record obstacle =
  obs_x :: real
  obs_y :: real
  obs_r :: real

text \<open>
  The fields of class \<^verbatim>\<open>Env\<close> that the scenario generation and the flow field read
  or write. \<^verbatim>\<open>self.r\<close> and \<^verbatim>\<open>self.p\<close> are \<open>env_r\<close> and \<open>env_p\<close>. The generator
  \<^verbatim>\<open>self.rd\<close> is the stream of the variates in \<open>[0, 1)\<close> that it has still to hand out.
  \<^verbatim>\<open>self.core_centers\<close>, the k-d tree, is rebuilt from \<^verbatim>\<open>self.cores\<close> by the only
  method that changes \<^verbatim>\<open>self.cores\<close>, so it is read off \<open>cores\<close>.
\<close>

record env =
  rd :: "real stream"
  width :: real
  height :: real
  env_r :: real
  v_rel_max :: real
  env_p :: real
  v_range :: "real \<times> real"
  obs_r_range :: "real \<times> real"
  cores :: "core list"
  obstacles :: "obstacle list"
  initial :: "real \<times> real"
  goal :: "real \<times> real"

section \<open>Placement checks\<close>

text \<open>\<^verbatim>\<open>dis = np.sqrt(dx*dx+dy*dy)\<close> between two cores, as \<^verbatim>\<open>check_core\<close> computes it.\<close>

definition core_dis :: "core \<Rightarrow> core \<Rightarrow> real" where
  "core_dis core_i core_j =
     (let dx = core_x core_i - core_x core_j;
          dy = core_y core_i - core_y core_j
      in sqrt (dx * dx + dy * dy))"

text \<open>
  The loop of \<^verbatim>\<open>Env.check_core\<close> over the cores still to compare. \<open>boundary_i\<close> and
  \<open>v_2\<close> divide Python floats; \<open>v_1\<close> divides by a numpy scalar.
\<close>

fun check_core_loop :: "env \<Rightarrow> core list \<Rightarrow> core \<Rightarrow> py_error + bool" where
  "check_core_loop e [] core_j = Inr True"
| "check_core_loop e (core_i # rest) core_j =
     (let dis = core_dis core_i core_j in
      if clockwise core_i = clockwise core_j then
        (if 2 * pi * v_rel_max e = 0 then Inl ZeroDivisionError
         else
           let boundary_i = Gamma core_i / (2 * pi * v_rel_max e);
               boundary_j = Gamma core_j / (2 * pi * v_rel_max e)
           in if dis < boundary_i + boundary_j then Inr False
              else check_core_loop e rest core_j)
      else
        (let Gamma_l = max (Gamma core_i) (Gamma core_j);
             Gamma_s = min (Gamma core_i) (Gamma core_j);
             v_1 = np_div Gamma_l (2 * pi * (dis - 2 * env_r e))
         in if 2 * pi * env_r e = 0 then Inl ZeroDivisionError
            else
              let v_2 = Gamma_s / (2 * pi * env_r e)
              in if fgt v_1 (Fin (env_p e * v_2)) then Inr False
                 else check_core_loop e rest core_j))"

definition check_core :: "env \<Rightarrow> core \<Rightarrow> py_error + bool" where
  "check_core e core_j = check_core_loop e (cores e) core_j"

text \<open>The two loops of \<^verbatim>\<open>Env.check_obstacle\<close>.\<close>

definition core_obs_dis :: "core \<Rightarrow> obstacle \<Rightarrow> real" where
  "core_obs_dis c obs =
     (let dx = core_x c - obs_x obs; dy = core_y c - obs_y obs
      in sqrt (dx * dx + dy * dy))"

definition obs_dis :: "obstacle \<Rightarrow> obstacle \<Rightarrow> real" where
  "obs_dis obstacle obs =
     (let dx = obs_x obstacle - obs_x obs; dy = obs_y obstacle - obs_y obs
      in sqrt (dx * dx + dy * dy))"

fun clear_of_cores :: "env \<Rightarrow> core list \<Rightarrow> obstacle \<Rightarrow> bool" where
  "clear_of_cores e [] obs = True"
| "clear_of_cores e (c # rest) obs =
     (if core_obs_dis c obs \<le> env_r e + obs_r obs then False
      else clear_of_cores e rest obs)"

fun clear_of_obstacles :: "obstacle list \<Rightarrow> obstacle \<Rightarrow> bool" where
  "clear_of_obstacles [] obs = True"
| "clear_of_obstacles (obstacle # rest) obs =
     (if obs_dis obstacle obs \<le> obs_r obstacle + obs_r obs then False
      else clear_of_obstacles rest obs)"

definition check_obstacle :: "env \<Rightarrow> obstacle \<Rightarrow> bool" where
  "check_obstacle e obs =
     (if clear_of_cores e (cores e) obs then clear_of_obstacles (obstacles e) obs
      else False)"

section \<open>The flow field\<close>

text \<open>
  \<^verbatim>\<open>Env.compute_speed\<close>. The inner branch divides Python floats, the outer one divides by
  the numpy scalar \<open>d\<close> that \<^verbatim>\<open>get_velocity\<close> passes.
\<close>

definition compute_speed :: "env \<Rightarrow> real \<Rightarrow> real \<Rightarrow> py_error + fval" where
  "compute_speed e Gamma' d =
     (if d \<le> env_r e then
        (if 2 * pi * env_r e * env_r e = 0 then Inl ZeroDivisionError
         else Inr (Fin (Gamma' / (2 * pi * env_r e * env_r e) * d)))
      else Inr (np_div Gamma' (2 * pi * d)))"

text \<open>
  The matrix products of \<^verbatim>\<open>get_velocity\<close> on float values. \<open>rotation\<close> is the
  matrix the source picks for a core; \<open>fmat_vec\<close> is \<^verbatim>\<open>rotation * v_radial\<close>, entry
  by entry.
\<close>

type_synonym mat2 = "(real \<times> real) \<times> (real \<times> real)"

definition rotation :: "bool \<Rightarrow> mat2" where
  "rotation cw = (if cw then ((0, -1), (1, 0)) else ((0, 1), (-1, 0)))"

definition fmat_vec :: "mat2 \<Rightarrow> fvec \<Rightarrow> fvec" where
  "fmat_vec m v =
     (fadd (fmul (Fin (fst (fst m))) (fst v)) (fmul (Fin (snd (fst m))) (snd v)),
      fadd (fmul (Fin (fst (snd m))) (fst v)) (fmul (Fin (snd (snd m))) (snd v)))"

text \<open>
  \<^verbatim>\<open>v_tangent * speed\<close>: an \<^verbatim>\<open>np.matrix\<close> times a scalar is \<^verbatim>\<open>np.dot\<close>, which for
  a column and a scalar starts from a zeroed result and adds scalar times column to it
  with the BLAS routine axpy. For the scalar 0 that routine returns at once: the
  result is zero whatever the column holds, a not-a-number included. For any other
  scalar the product is taken entry by entry.
\<close>

definition fvec_scale :: "fvec \<Rightarrow> fval \<Rightarrow> fvec" where
  "fvec_scale v s =
     (if s = Fin 0 then (Fin 0, Fin 0) else (fmul (fst v) s, fmul (snd v) s))"

definition fvec_add :: "fvec \<Rightarrow> fvec \<Rightarrow> fvec" where
  "fvec_add u v = (fadd (fst u) (fst v), fadd (snd u) (snd v))"

text \<open>\<^verbatim>\<open>project = np.transpose(v) * v_radial\<close>, a 1x1 matrix.\<close>

definition project :: "fvec \<Rightarrow> real \<times> real \<Rightarrow> fval" where
  "project v v_radial =
     fadd (fmul (fst v) (Fin (fst v_radial))) (fmul (snd v) (Fin (snd v_radial)))"

text \<open>
  The inner loop \<^verbatim>\<open>for v in v_radial_set\<close> of \<^verbatim>\<open>get_velocity\<close>. Its \<^verbatim>\<open>continue\<close>
  belongs to this loop, so either way the next \<open>v\<close> is taken; \<open>k\<close> is what the
  body of the outer loop does once the inner loop has ended.
\<close>

fun occlusion_loop :: "fvec list \<Rightarrow> real \<times> real \<Rightarrow> 'a \<Rightarrow> 'a" where
  "occlusion_loop [] v_radial k = k"
| "occlusion_loop (v # rest) v_radial k =
     (if fgt (project v v_radial) (Fin 0) then occlusion_loop rest v_radial k
      else occlusion_loop rest v_radial k)"

text \<open>
  The outer loop \<^verbatim>\<open>for i in list(idx)\<close>. \<^verbatim>\<open>v_radial_set.append(v_radial)\<close> stores the
  matrix object that \<^verbatim>\<open>v_radial /= dis\<close> then divides in place, so the set holds
  the divided vectors.
\<close>

fun velocity_loop ::
  "env \<Rightarrow> real \<Rightarrow> real \<Rightarrow> nat list \<Rightarrow> fvec list \<Rightarrow> fvec \<Rightarrow> py_error + fvec" where
  "velocity_loop e x y [] v_radial_set v_velocity = Inr v_velocity"
| "velocity_loop e x y (i # idx) v_radial_set v_velocity =
     (if length (cores e) \<le> i then Inl IndexError
      else
        let c = cores e ! i;
            v_radial = (core_x c - x, core_y c - y)
        in occlusion_loop v_radial_set v_radial
             (let dis = sqrt (fst v_radial * fst v_radial + snd v_radial * snd v_radial);
                  v_unit = (np_div (fst v_radial) dis, np_div (snd v_radial) dis);
                  v_tangent = fmat_vec (rotation (clockwise c)) v_unit
              in case compute_speed e (Gamma c) dis of
                   Inl err \<Rightarrow> Inl err
                 | Inr speed \<Rightarrow>
                     velocity_loop e x y idx (v_radial_set @ [v_unit])
                       (fvec_add v_velocity (fvec_scale v_tangent speed))))"

text \<open>
  \<^verbatim>\<open>scipy.spatial.KDTree.query(q, k)\<close> with \<open>k\<close> the number of points in the tree, as
  \<^verbatim>\<open>get_velocity\<close> calls it. For \<open>k = 1\<close> scipy squeezes the result to one scalar
  index; for \<open>k > 1\<close> it returns the indices in ascending distance; \<open>k < 1\<close> is
  refused. How scipy orders points at equal distance is not documented: the stable
  sort stands for one such order, and the results on \<open>velocity_loop\<close> are proved
  for every order.
\<close>

datatype query_result = Scalar nat | Indices "nat list"

definition point_dis :: "real \<times> real \<Rightarrow> real \<times> real \<Rightarrow> real" where
  "point_dis a b =
     sqrt ((fst a - fst b) * (fst a - fst b) + (snd a - snd b) * (snd a - snd b))"

definition query_all :: "(real \<times> real) list \<Rightarrow> real \<times> real \<Rightarrow> py_error + query_result" where
  "query_all pts q =
     (if length pts = 0 then Inl ValueError
      else if length pts = 1 then Inr (Scalar 0)
      else Inr (Indices (sort_key (\<lambda>i. point_dis (pts ! i) q) [0..<length pts])))"

definition core_centers :: "env \<Rightarrow> (real \<times> real) list" where
  "core_centers e = map (\<lambda>c. (core_x c, core_y c)) (cores e)"

text \<open>\<^verbatim>\<open>Env.get_velocity\<close>: \<^verbatim>\<open>list(idx)\<close> of a scalar index raises \<^verbatim>\<open>TypeError\<close>.\<close>

definition get_velocity :: "env \<Rightarrow> real \<Rightarrow> real \<Rightarrow> py_error + fvec" where
  "get_velocity e x y =
     (case query_all (core_centers e) (x, y) of
        Inl err \<Rightarrow> Inl err
      | Inr (Scalar i) \<Rightarrow> Inl TypeError
      | Inr (Indices idx) \<Rightarrow> velocity_loop e x y idx [] (Fin 0, Fin 0))"

text \<open>
  \<^verbatim>\<open>get_velocity\<close> with the occlusion loop taken out, to compare \<^verbatim>\<open>get_velocity\<close> with.
\<close>

fun velocity_loop_nofilter ::
  "env \<Rightarrow> real \<Rightarrow> real \<Rightarrow> nat list \<Rightarrow> fvec \<Rightarrow> py_error + fvec" where
  "velocity_loop_nofilter e x y [] v_velocity = Inr v_velocity"
| "velocity_loop_nofilter e x y (i # idx) v_velocity =
     (if length (cores e) \<le> i then Inl IndexError
      else
        let c = cores e ! i;
            v_radial = (core_x c - x, core_y c - y);
            dis = sqrt (fst v_radial * fst v_radial + snd v_radial * snd v_radial);
            v_unit = (np_div (fst v_radial) dis, np_div (snd v_radial) dis);
            v_tangent = fmat_vec (rotation (clockwise c)) v_unit
        in case compute_speed e (Gamma c) dis of
             Inl err \<Rightarrow> Inl err
           | Inr speed \<Rightarrow>
               velocity_loop_nofilter e x y idx
                 (fvec_add v_velocity (fvec_scale v_tangent speed)))"

definition get_velocity_nofilter :: "env \<Rightarrow> real \<Rightarrow> real \<Rightarrow> py_error + fvec" where
  "get_velocity_nofilter e x y =
     (case query_all (core_centers e) (x, y) of
        Inl err \<Rightarrow> Inl err
      | Inr (Scalar i) \<Rightarrow> Inl TypeError
      | Inr (Indices idx) \<Rightarrow> velocity_loop_nofilter e x y idx (Fin 0, Fin 0))"

text \<open>
  The sum the specification describes, over the reals: for each core the rotation of the
  unit vector from the point to the core, times the piecewise speed.
\<close>

definition speed_spec :: "real \<Rightarrow> real \<Rightarrow> real \<Rightarrow> real" where
  "speed_spec radius Gamma' d =
     (if d \<le> radius then Gamma' / (2 * pi * radius\<^sup>2) * d else Gamma' / (2 * pi * d))"

definition contribution :: "env \<Rightarrow> real \<Rightarrow> real \<Rightarrow> core \<Rightarrow> real \<times> real" where
  "contribution e x y c =
     (let d = point_dis (core_x c, core_y c) (x, y);
          ux = (core_x c - x) / d;
          uy = (core_y c - y) / d;
          s = speed_spec (env_r e) (Gamma c) d
      in if clockwise c then (- uy * s, ux * s) else (uy * s, - ux * s))"

definition velocity_sum :: "env \<Rightarrow> real \<Rightarrow> real \<Rightarrow> real \<times> real" where
  "velocity_sum e x y =
     (sum_list (map (\<lambda>c. fst (contribution e x y c)) (cores e)),
      sum_list (map (\<lambda>c. snd (contribution e x y c)) (cores e)))"

section \<open>Scenario generation\<close>

text \<open>
  \<^verbatim>\<open>RandomState.uniform(low, high)\<close> takes one variate \<open>u\<close> and returns
  \<open>low + (high - low) * u\<close>, once per coordinate when \<open>low\<close> and \<open>high\<close> are arrays;
  \<^verbatim>\<open>RandomState.binomial(1, 0.5)\<close> takes one variate and returns 1 when it exceeds one half.
  Each returns the generator advanced.
\<close>

definition uniform :: "real \<Rightarrow> real \<Rightarrow> real stream \<Rightarrow> real \<times> real stream" where
  "uniform low high g = (low + (high - low) * shd g, stl g)"

definition binomial :: "real stream \<Rightarrow> nat \<times> real stream" where
  "binomial g = ((if 1 / 2 < shd g then 1 else 0), stl g)"

text \<open>One candidate core of the first loop of \<^verbatim>\<open>reset\<close>, and the generator after it.\<close>

definition draw_core :: "env \<Rightarrow> core \<times> real stream" where
  "draw_core e =
     (let (cx, g1) = uniform 0 (width e) (rd e);
          (cy, g2) = uniform 0 (height e) g1;
          (direction, g3) = binomial g2;
          (v_edge, g4) = uniform (fst (v_range e)) (snd (v_range e)) g3;
          Gamma' = 2 * pi * env_r e * v_edge
      in (\<lparr>core_x = cx, core_y = cy, clockwise = (direction \<noteq> 0), Gamma = Gamma'\<rparr>, g4))"

text \<open>
  The first \<^verbatim>\<open>while True\<close> of \<^verbatim>\<open>reset\<close>. It has no other exit than
  \<^verbatim>\<open>num_cores == 0\<close>, so the loop may run forever: then the value is \<open>None\<close>.
\<close>

partial_function (option) place_cores :: "env \<Rightarrow> int \<Rightarrow> (py_error + env) option" where
  "place_cores e num_cores =
     (case check_core (e\<lparr>rd := snd (draw_core e)\<rparr>) (fst (draw_core e)) of
        Inl err \<Rightarrow> Some (Inl err)
      | Inr ok \<Rightarrow>
          (if ok then
             (if num_cores - 1 = 0
              then Some (Inr (e\<lparr>rd := snd (draw_core e), cores := cores e @ [fst (draw_core e)]\<rparr>))
              else place_cores
                     (e\<lparr>rd := snd (draw_core e), cores := cores e @ [fst (draw_core e)]\<rparr>)
                     (num_cores - 1))
           else
             (if num_cores = 0 then Some (Inr (e\<lparr>rd := snd (draw_core e)\<rparr>))
              else place_cores (e\<lparr>rd := snd (draw_core e)\<rparr>) num_cores)))"

text \<open>One candidate obstacle of the second loop, and the generator after it.\<close>

definition draw_obstacle :: "env \<Rightarrow> obstacle \<times> real stream" where
  "draw_obstacle e =
     (let (cx, g1) = uniform 0 (width e) (rd e);
          (cy, g2) = uniform 0 (height e) g1;
          (rad, g3) = uniform (fst (obs_r_range e)) (snd (obs_r_range e)) g2
      in (\<lparr>obs_x = cx, obs_y = cy, obs_r = rad\<rparr>, g3))"

text \<open>The second \<^verbatim>\<open>while True\<close> of \<^verbatim>\<open>reset\<close>, with \<^verbatim>\<open>num_obs == 0\<close> its only exit.\<close>

partial_function (option) place_obstacles :: "env \<Rightarrow> int \<Rightarrow> env option" where
  "place_obstacles e num_obs =
     (if check_obstacle (e\<lparr>rd := snd (draw_obstacle e)\<rparr>) (fst (draw_obstacle e)) then
        (if num_obs - 1 = 0
         then Some (e\<lparr>rd := snd (draw_obstacle e),
                       obstacles := obstacles e @ [fst (draw_obstacle e)]\<rparr>)
         else place_obstacles
                (e\<lparr>rd := snd (draw_obstacle e),
                    obstacles := obstacles e @ [fst (draw_obstacle e)]\<rparr>)
                (num_obs - 1))
      else
        (if num_obs = 0 then Some (e\<lparr>rd := snd (draw_obstacle e)\<rparr>)
         else place_obstacles (e\<lparr>rd := snd (draw_obstacle e)\<rparr>) num_obs))"

text \<open>
  \<^verbatim>\<open>Env.reset\<close>. \<open>None\<close>: a placement loop never ends. \<open>Some (Inl err)\<close>: the call
  raises. \<open>Some (Inr (e', current_v))\<close>: it returns, leaving the environment \<open>e'\<close>,
  having handed \<open>current_v\<close> to \<^verbatim>\<open>robot.set_state\<close> (the robot is not part of
  \<^verbatim>\<open>env.py\<close>). With no core, \<open>centers\<close> stays \<^verbatim>\<open>None\<close>, which
  \<^verbatim>\<open>scipy.spatial.KDTree\<close> refuses.
\<close>

definition reset :: "env \<Rightarrow> int \<Rightarrow> int \<Rightarrow> (py_error + env \<times> fvec) option" where
  "reset e num_cores num_obs =
     (case place_cores (e\<lparr>cores := [], obstacles := []\<rparr>) num_cores of
        None \<Rightarrow> None
      | Some (Inl err) \<Rightarrow> Some (Inl err)
      | Some (Inr e1) \<Rightarrow>
          (if cores e1 = [] then Some (Inl ValueError)
           else
             (case place_obstacles e1 num_obs of
                None \<Rightarrow> None
              | Some e2 \<Rightarrow>
                  (case get_velocity e2 (fst (initial e2)) (snd (initial e2)) of
                     Inl err \<Rightarrow> Some (Inl err)
                   | Inr current_v \<Rightarrow> Some (Inr (e2, current_v))))))"

text \<open>
  \<^verbatim>\<open>Env.__init__\<close>: the parameters it sets, then \<^verbatim>\<open>self.reset()\<close> with the default
  counts. \<open>g\<close> is the stream of \<^verbatim>\<open>np.random.RandomState(seed)\<close>.
\<close>

definition init_env :: "real stream \<Rightarrow> env" where
  "init_env g =
     \<lparr>rd = g, width = 50, height = 50, env_r = 0.5, v_rel_max = 0.5, env_p = 0.8,
      v_range = (5, 10), obs_r_range = (1, 5), cores = [], obstacles = [],
      initial = (5, 5), goal = (45, 45)\<rparr>"

definition Env_init :: "(int \<Rightarrow> real stream) \<Rightarrow> int \<Rightarrow> (py_error + env \<times> fvec) option" where
  "Env_init random_state seed = reset (init_env (random_state seed)) 5 5"

section \<open>Frame transform\<close>

definition transpose2 :: "mat2 \<Rightarrow> mat2" where
  "transpose2 m = ((fst (fst m), fst (snd m)), (snd (fst m), snd (snd m)))"

definition mat_neg :: "mat2 \<Rightarrow> mat2" where
  "mat_neg m = ((- fst (fst m), - snd (fst m)), (- fst (snd m), - snd (snd m)))"

definition mat_vec :: "mat2 \<Rightarrow> real \<times> real \<Rightarrow> real \<times> real" where
  "mat_vec m v =
     (fst (fst m) * fst v + snd (fst m) * snd v,
      fst (snd m) * fst v + snd (snd m) * snd v)"

definition vec_add :: "real \<times> real \<Rightarrow> real \<times> real \<Rightarrow> real \<times> real" where
  "vec_add u v = (fst u + fst v, snd u + snd v)"

text \<open>
  Modelled from the spec: \<^verbatim>\<open>robot.get_robot_transform\<close>, of the module \<^verbatim>\<open>robot\<close> that
  \<^verbatim>\<open>env.py\<close> imports. It gives the rotation by the heading \<open>theta\<close> (the matrix
  \<^verbatim>\<open>init_visualize\<close> also builds from \<^verbatim>\<open>robot.theta\<close>) and the position of the robot;
  \<open>body_to_world\<close> is the transform that they define.
\<close>

definition get_robot_transform :: "real \<Rightarrow> real \<Rightarrow> real \<Rightarrow> mat2 \<times> (real \<times> real)" where
  "get_robot_transform theta rx ry =
     (((cos theta, - sin theta), (sin theta, cos theta)), (rx, ry))"

definition body_to_world :: "mat2 \<times> (real \<times> real) \<Rightarrow> real \<times> real \<Rightarrow> real \<times> real" where
  "body_to_world T pt = vec_add (mat_vec (fst T) pt) (snd T)"

text \<open>
  \<^verbatim>\<open>R_rw = np.transpose(R_wr)\<close>, \<^verbatim>\<open>t_rw = -R_rw * t_wr\<close> and the map
  \<^verbatim>\<open>R_rw * p + t_rw\<close> that \<^verbatim>\<open>get_observation\<close> applies to the goal and to each
  sonar point.
\<close>

definition world_to_body :: "mat2 \<times> (real \<times> real) \<Rightarrow> real \<times> real \<Rightarrow> real \<times> real" where
  "world_to_body T pt =
     (let R_wr = fst T; t_wr = snd T;
          R_rw = transpose2 R_wr;
          t_rw = mat_vec (mat_neg R_rw) t_wr
      in vec_add (mat_vec R_rw pt) t_rw)"

text \<open>
  \<^verbatim>\<open>Env.get_observation\<close>, given what the robot holds: its transform, its velocity and
  the sonar reflections \<open>(x, y, flag)\<close>. With no reflection \<open>sonar_points_r\<close> stays
  \<^verbatim>\<open>None\<close>.
\<close>

definition get_observation ::
  "env \<Rightarrow> mat2 \<times> (real \<times> real) \<Rightarrow> real \<times> real \<Rightarrow> (real \<times> real \<times> real) list \<Rightarrow>
     (real \<times> real) \<times> (real \<times> real \<times> real) list option \<times> (real \<times> real)" where
  "get_observation e T velocity reflections =
     (let abs_velocity_r = mat_vec (transpose2 (fst T)) velocity;
          sonar_points_r =
            (if reflections = [] then None
             else Some (map (\<lambda>(px, py, flag).
                     (fst (world_to_body T (px, py)), snd (world_to_body T (px, py)), flag))
                   reflections));
          goal_r = world_to_body T (goal e)
      in (abs_velocity_r, sonar_points_r, goal_r))"

section \<open>The invariants of a generated scenario\<close>

text \<open>\<open>boundary\<close> of a core, and what \<^verbatim>\<open>check_core\<close> demands of an accepted pair.\<close>

definition boundary :: "env \<Rightarrow> core \<Rightarrow> real" where
  "boundary e c = Gamma c / (2 * pi * v_rel_max e)"

definition pair_ok :: "env \<Rightarrow> core \<Rightarrow> core \<Rightarrow> bool" where
  "pair_ok e core_i core_j =
     (if clockwise core_i = clockwise core_j
      then \<not> core_dis core_i core_j < boundary e core_i + boundary e core_j
      else \<not> fgt (np_div (max (Gamma core_i) (Gamma core_j))
                      (2 * pi * (core_dis core_i core_j - 2 * env_r e)))
                 (Fin (env_p e * (min (Gamma core_i) (Gamma core_j) / (2 * pi * env_r e)))))"

definition cores_ok :: "env \<Rightarrow> core list \<Rightarrow> bool" where
  "cores_ok e cs = (\<forall>j < length cs. \<forall>i < j. pair_ok e (cs ! i) (cs ! j))"

text \<open>The fields that neither placement loop assigns.\<close>

definition same_params :: "env \<Rightarrow> env \<Rightarrow> bool" where
  "same_params e e' =
     (width e' = width e \<and> height e' = height e \<and> env_r e' = env_r e \<and>
      v_rel_max e' = v_rel_max e \<and> env_p e' = env_p e \<and> v_range e' = v_range e \<and>
      obs_r_range e' = obs_r_range e \<and> initial e' = initial e \<and> goal e' = goal e)"

text \<open>What \<^verbatim>\<open>check_obstacle\<close> demands of the accepted obstacles.\<close>

definition obstacles_ok :: "env \<Rightarrow> core list \<Rightarrow> obstacle list \<Rightarrow> bool" where
  "obstacles_ok e cs os =
     ((\<forall>ob \<in> set os. \<forall>c \<in> set cs. env_r e + obs_r ob < core_obs_dis c ob) \<and>
      (\<forall>j < length os. \<forall>i < j. obs_r (os ! i) + obs_r (os ! j) < obs_dis (os ! i) (os ! j)))"

section \<open>Two generated scenarios\<close>

text \<open>
  Run A: the generator hands out the variates below. The two cores turn the same way,
  at distance 45; the two obstacles have radius 1.
\<close>

definition run_a_stream :: "real stream" where
  "run_a_stream =
     4/25 ## 9/50 ## 0 ## 0 ## 7/10 ## 9/10 ## 0 ## 0 ##
     7/25 ## 17/50 ## 0 ## 23/50 ## 29/50 ## 0 ## sconst 0"

definition run_a_cores :: "core list" where
  "run_a_cores =
     [\<lparr>core_x = 8, core_y = 9, clockwise = False, Gamma = 5 * pi\<rparr>,
      \<lparr>core_x = 35, core_y = 45, clockwise = False, Gamma = 5 * pi\<rparr>]"

definition run_a_obstacles :: "obstacle list" where
  "run_a_obstacles =
     [\<lparr>obs_x = 14, obs_y = 17, obs_r = 1\<rparr>, \<lparr>obs_x = 23, obs_y = 29, obs_r = 1\<rparr>]"

definition run_a_env :: env where
  "run_a_env = (init_env (sconst 0))\<lparr>cores := run_a_cores, obstacles := run_a_obstacles\<rparr>"

text \<open>
  Run B: as run A, but the second core turns the other way and one obstacle is asked for.
\<close>

definition run_b_stream :: "real stream" where
  "run_b_stream =
     4/25 ## 9/50 ## 0 ## 0 ## 7/10 ## 9/10 ## 3/4 ## 0 ## 7/25 ## 17/50 ## 0 ## sconst 0"

definition run_b_cores :: "core list" where
  "run_b_cores =
     [\<lparr>core_x = 8, core_y = 9, clockwise = False, Gamma = 5 * pi\<rparr>,
      \<lparr>core_x = 35, core_y = 45, clockwise = True, Gamma = 5 * pi\<rparr>]"

definition run_b_env :: env where
  "run_b_env =
     (init_env (sconst 0))\<lparr>cores := run_b_cores,
                            obstacles := [\<lparr>obs_x = 14, obs_y = 17, obs_r = 1\<rparr>]\<rparr>"

text \<open>
  A configuration whose generated circulation strengths are positive: a positive core
  radius, a positive speed range, and no negative variate.
\<close>

definition valid_speed_config :: "env \<Rightarrow> bool" where
  "valid_speed_config e =
     (0 < env_r e \<and> 0 < fst (v_range e) \<and> fst (v_range e) \<le> snd (v_range e) \<and>
      (\<forall>u \<in> sset (rd e). 0 \<le> u))"

text \<open>Run C: one core and one obstacle are asked for.\<close>

definition run_c_stream :: "real stream" where
  "run_c_stream = 4/25 ## 9/50 ## 0 ## 0 ## 7/10 ## 9/10 ## 0 ## sconst 0"

definition run_c_env :: env where
  "run_c_env =
     (init_env (sconst 0))\<lparr>cores := [\<lparr>core_x = 8, core_y = 9, clockwise = False, Gamma = 5 * pi\<rparr>],
                            obstacles := [\<lparr>obs_x = 35, obs_y = 45, obs_r = 1\<rparr>]\<rparr>"

section \<open>Rejected candidates\<close>

text \<open>
  What the second loop of \<^verbatim>\<open>reset\<close> leaves after a rejected candidate, and the
  statement that the first candidate and every later one is rejected.
\<close>

definition skip_obstacle :: "env \<Rightarrow> env" where
  "skip_obstacle e = e\<lparr>rd := snd (draw_obstacle e)\<rparr>"

definition always_rejected :: "env \<Rightarrow> bool" where
  "always_rejected e =
     (\<forall>k. \<not> check_obstacle (skip_obstacle ((skip_obstacle ^^ k) e))
                             (fst (draw_obstacle ((skip_obstacle ^^ k) e))))"

text \<open>A domain reduced to the point \<open>(0, 0)\<close>, otherwise as \<^verbatim>\<open>Env.__init__\<close> sets it.\<close>

definition point_env :: env where
  "point_env = (init_env (sconst 0))\<lparr>width := 0, height := 0\<rparr>"

definition point_env_core :: env where
  "point_env_core =
     point_env\<lparr>cores := [\<lparr>core_x = 0, core_y = 0, clockwise = False, Gamma = 5 * pi\<rparr>]\<rparr>"

section \<open>Two cores at a chosen distance\<close>

text \<open>
  A generator whose variates put the first core at \<open>(20, 20)\<close>, counter-clockwise, the
  second at \<open>(20 + delta, 20)\<close>, clockwise, both with edge speed 5, and one obstacle of
  radius 1 at \<open>(40, 40)\<close>; the cores and the environment this gives.
\<close>

definition close_stream :: "real \<Rightarrow> real stream" where
  "close_stream delta =
     2/5 ## 2/5 ## 0 ## 0 ## (20 + delta) / 50 ## 2/5 ## 3/4 ## 0 ## 4/5 ## 4/5 ## 0 ## sconst 0"

definition close_cores :: "real \<Rightarrow> core list" where
  "close_cores delta =
     [\<lparr>core_x = 20, core_y = 20, clockwise = False, Gamma = 5 * pi\<rparr>,
      \<lparr>core_x = 20 + delta, core_y = 20, clockwise = True, Gamma = 5 * pi\<rparr>]"

definition close_env :: "real \<Rightarrow> env" where
  "close_env delta =
     (init_env (sconst 0))\<lparr>cores := close_cores delta,
                            obstacles := [\<lparr>obs_x = 40, obs_y = 40, obs_r = 1\<rparr>]\<rparr>"

section \<open>Speed of a single core\<close>

text \<open>
  C4. In an environment with a positive core radius, for every circulation strength and
  every distance \<open>d \<ge> 0\<close>, \<^verbatim>\<open>compute_speed\<close> returns \<open>Gamma / (2 pi radius^2) * d\<close> when
  \<open>d \<le> radius\<close> and \<open>Gamma / (2 pi d)\<close> when \<open>d > radius\<close>, and the two expressions are
  equal at \<open>d = radius\<close>.
\<close>

theorem compute_speed_piecewise:
  assumes "0 < env_r e" and "0 \<le> d"
  shows "compute_speed e G d =
           Inr (Fin (if d \<le> env_r e then G / (2 * pi * (env_r e)\<^sup>2) * d else G / (2 * pi * d)))
         \<and> G / (2 * pi * (env_r e)\<^sup>2) * env_r e = G / (2 * pi * env_r e)"
  using assms by (auto simp: compute_speed_def np_div_def power2_eq_square)

text \<open>
  The example of the specification: radius 0.5 and edge speed 7 give speed 3.5 at distance 1
  and speed 7 at the edge.
\<close>

theorem compute_speed_piecewise_witness:
  "(0::real) < env_r (init_env (sconst 0)) \<and> (0::real) \<le> 1 \<and>
   compute_speed (init_env (sconst 0)) (7 * pi) 1 = Inr (Fin (7 / 2)) \<and>
   compute_speed (init_env (sconst 0)) (7 * pi) (1 / 2) = Inr (Fin 7)"
  using compute_speed_piecewise [of "init_env (sconst 0)" 1 "7 * pi"]
        compute_speed_piecewise [of "init_env (sconst 0)" "1 / 2" "7 * pi"]
  by (simp add: init_env_def power2_eq_square)

section \<open>Frame transform\<close>

text \<open>
  C6. For every heading \<open>theta\<close> and every position \<open>(rx, ry)\<close> of the robot, the
  world-to-body map of \<^verbatim>\<open>get_observation\<close> undoes the body-to-world transform, and the
  body-to-world transform undoes the world-to-body map: either composition returns the
  point it was given.
\<close>

theorem world_to_body_inverse:
  "world_to_body (get_robot_transform theta rx ry)
     (body_to_world (get_robot_transform theta rx ry) pt) = pt
   \<and> body_to_world (get_robot_transform theta rx ry)
     (world_to_body (get_robot_transform theta rx ry) pt) = pt"
proof -
  obtain a b where pt: "pt = (a, b)" by (cases pt)
  have c: "cos theta * cos theta + sin theta * sin theta = 1"
    using sin_cos_squared_add3 [of theta] by simp
  have 1: "a * (cos theta * cos theta) + a * (sin theta * sin theta) = a" for a :: real
    using c by (metis distrib_left mult.right_neutral)
  show ?thesis
    unfolding pt
    by (simp add: world_to_body_def body_to_world_def get_robot_transform_def
        mat_vec_def mat_neg_def transpose2_def vec_add_def Let_def algebra_simps 1)
qed

section \<open>What the placement loops keep\<close>

subsection \<open>Accepted cores\<close>

lemma core_dis_sym: "core_dis a b = core_dis b a"
  by (simp add: core_dis_def Let_def algebra_simps)

lemma pair_ok_sym: "pair_ok e a b = pair_ok e b a"
  by (simp add: pair_ok_def core_dis_sym [of a b] max.commute min.commute add.commute)

lemma pair_ok_params: "same_params e e' \<Longrightarrow> pair_ok e' a b = pair_ok e a b"
  by (simp add: pair_ok_def same_params_def boundary_def)

lemma check_core_loop_True:
  "check_core_loop e cs cj = Inr True \<Longrightarrow> ci \<in> set cs \<Longrightarrow> pair_ok e ci cj"
  by (induction cs) (auto simp: pair_ok_def boundary_def Let_def split: if_splits)

lemma cores_ok_snoc:
  assumes "cores_ok e cs" and "\<forall>ci \<in> set cs. pair_ok e ci c"
  shows "cores_ok e (cs @ [c])"
  unfolding cores_ok_def
proof (intro allI impI)
  fix j i assume j: "j < length (cs @ [c])" and i: "i < j"
  show "pair_ok e ((cs @ [c]) ! i) ((cs @ [c]) ! j)"
  proof (cases "j < length cs")
    case True
    with assms(1) i show ?thesis by (simp add: cores_ok_def nth_append)
  next
    case False
    with j have "j = length cs" by simp
    with i assms(2) show ?thesis by (simp add: nth_append)
  qed
qed

lemma cores_ok_pair:
  assumes "cores_ok e cs" and "i < length cs" and "j < length cs" and "i \<noteq> j"
  shows "pair_ok e (cs ! i) (cs ! j)"
proof (cases "i < j")
  case True
  with assms show ?thesis by (simp add: cores_ok_def)
next
  case False
  with assms have "j < i" by simp
  with assms have "pair_ok e (cs ! j) (cs ! i)" by (simp add: cores_ok_def)
  then show ?thesis by (simp add: pair_ok_sym)
qed

subsection \<open>Accepted obstacles\<close>

lemma clear_of_cores_D:
  "clear_of_cores e cs ob \<Longrightarrow> c \<in> set cs \<Longrightarrow> env_r e + obs_r ob < core_obs_dis c ob"
  by (induction cs) (auto split: if_splits)

lemma clear_of_cores_rd [simp]:
  "clear_of_cores (e\<lparr>rd := g\<rparr>) cs ob = clear_of_cores e cs ob"
  by (induction cs) simp_all

lemma clear_of_obstacles_D:
  "clear_of_obstacles os ob \<Longrightarrow> ob' \<in> set os \<Longrightarrow> obs_r ob' + obs_r ob < obs_dis ob' ob"
  by (induction os) (auto split: if_splits)

lemma obs_dis_sym: "obs_dis a b = obs_dis b a"
  by (simp add: obs_dis_def Let_def algebra_simps)

lemma obstacles_ok_params:
  "same_params e e' \<Longrightarrow> obstacles_ok e' cs os = obstacles_ok e cs os"
  by (simp add: obstacles_ok_def same_params_def)

lemma obstacles_ok_snoc:
  assumes "obstacles_ok e cs os" and "clear_of_cores e cs ob" and "clear_of_obstacles os ob"
  shows "obstacles_ok e cs (os @ [ob])"
proof -
  have "env_r e + obs_r o' < core_obs_dis c o'" if "o' \<in> set (os @ [ob])" "c \<in> set cs" for o' c
    using that assms(1,2) by (auto simp: obstacles_ok_def dest: clear_of_cores_D)
  moreover
  have "obs_r ((os @ [ob]) ! i) + obs_r ((os @ [ob]) ! j)
          < obs_dis ((os @ [ob]) ! i) ((os @ [ob]) ! j)"
    if "j < length (os @ [ob])" "i < j" for i j
  proof (cases "j < length os")
    case True
    with assms(1) that show ?thesis by (simp add: obstacles_ok_def nth_append)
  next
    case False
    with that have "j = length os" by simp
    with that assms(3) show ?thesis by (simp add: nth_append clear_of_obstacles_D)
  qed
  ultimately show ?thesis by (simp add: obstacles_ok_def)
qed

subsection \<open>The placement loops keep the invariants\<close>

lemma place_cores_inv:
  assumes run: "place_cores e0 n0 = Some res0"
  shows "\<forall>e'. res0 = Inr e' \<longrightarrow> cores_ok e0 (cores e0) \<longrightarrow>
           cores_ok e' (cores e') \<and> same_params e0 e' \<and> obstacles e' = obstacles e0"
proof (rule place_cores.raw_induct
    [where P = "\<lambda>e n res. \<forall>e'. res = Inr e' \<longrightarrow> cores_ok e (cores e) \<longrightarrow>
           cores_ok e' (cores e') \<and> same_params e e' \<and> obstacles e' = obstacles e", OF _ run])
  fix pc :: "env \<Rightarrow> int \<Rightarrow> (py_error + env) option" and e n res
  assume IH: "\<And>e n res. pc e n = Some res \<Longrightarrow>
      \<forall>e'. res = Inr e' \<longrightarrow> cores_ok e (cores e) \<longrightarrow>
           cores_ok e' (cores e') \<and> same_params e e' \<and> obstacles e' = obstacles e"
  let ?c = "fst (draw_core e)" and ?g = "snd (draw_core e)"
  assume eq: "(case check_core (e\<lparr>rd := ?g\<rparr>) ?c of
        Inl err \<Rightarrow> Some (Inl err)
      | Inr ok \<Rightarrow>
          (if ok then
             (if n - 1 = 0
              then Some (Inr (e\<lparr>rd := ?g, cores := cores e @ [?c]\<rparr>))
              else pc (e\<lparr>rd := ?g, cores := cores e @ [?c]\<rparr>) (n - 1))
           else
             (if n = 0 then Some (Inr (e\<lparr>rd := ?g\<rparr>))
              else pc (e\<lparr>rd := ?g\<rparr>) n))) = Some res"
  have sp1: "same_params e (e\<lparr>rd := ?g\<rparr>)" by (simp add: same_params_def)
  have sp2: "same_params e (e\<lparr>rd := ?g, cores := cores e @ [?c]\<rparr>)"
    by (simp add: same_params_def)
  show "\<forall>e'. res = Inr e' \<longrightarrow> cores_ok e (cores e) \<longrightarrow>
           cores_ok e' (cores e') \<and> same_params e e' \<and> obstacles e' = obstacles e"
  proof (intro allI impI)
    fix e' assume r: "res = Inr e'" and ok: "cores_ok e (cores e)"
    show "cores_ok e' (cores e') \<and> same_params e e' \<and> obstacles e' = obstacles e"
    proof (cases "check_core (e\<lparr>rd := ?g\<rparr>) ?c")
      case (Inl err)
      with eq r show ?thesis by simp
    next
      case (Inr b)
      show ?thesis
      proof (cases b)
        case True
        from Inr True have "\<forall>ci \<in> set (cores e). pair_ok (e\<lparr>rd := ?g\<rparr>) ci ?c"
          by (auto simp: check_core_def dest: check_core_loop_True)
        then have "\<forall>ci \<in> set (cores e). pair_ok e ci ?c"
          using pair_ok_params[OF sp1] by simp
        with ok have ok2: "cores_ok e (cores e @ [?c])" by (rule cores_ok_snoc)
        let ?e2 = "e\<lparr>rd := ?g, cores := cores e @ [?c]\<rparr>"
        have ok3: "cores_ok ?e2 (cores ?e2)"
          using ok2 pair_ok_params[OF sp2] by (simp add: cores_ok_def)
        show ?thesis
        proof (cases "n - 1 = 0")
          case T: True
          with eq Inr True r have "e' = ?e2" by simp
          with ok3 sp2 show ?thesis by simp
        next
          case False
          with eq Inr True r have "pc ?e2 (n - 1) = Some (Inr e')" by simp
          from IH[OF this] ok3
          have "cores_ok e' (cores e') \<and> same_params ?e2 e' \<and> obstacles e' = obstacles ?e2"
            by simp
          then show ?thesis by (simp add: same_params_def)
        qed
      next
        case False
        let ?e1 = "e\<lparr>rd := ?g\<rparr>"
        have ok3: "cores_ok ?e1 (cores ?e1)"
          using ok pair_ok_params[OF sp1] by (simp add: cores_ok_def)
        show ?thesis
        proof (cases "n = 0")
          case True
          with eq Inr False r have "e' = ?e1" by simp
          with ok3 sp1 show ?thesis by simp
        next
          case F: False
          with eq Inr False r have "pc ?e1 n = Some (Inr e')" by simp
          from IH[OF this] ok3
          have "cores_ok e' (cores e') \<and> same_params ?e1 e' \<and> obstacles e' = obstacles ?e1"
            by simp
          then show ?thesis by (simp add: same_params_def)
        qed
      qed
    qed
  qed
qed

lemma place_obstacles_inv:
  assumes run: "place_obstacles e0 n0 = Some e0'"
  shows "obstacles_ok e0 (cores e0) (obstacles e0) \<longrightarrow>
           obstacles_ok e0' (cores e0') (obstacles e0') \<and> same_params e0 e0' \<and>
           cores e0' = cores e0"
proof (rule place_obstacles.raw_induct
    [where P = "\<lambda>e n e'. obstacles_ok e (cores e) (obstacles e) \<longrightarrow>
           obstacles_ok e' (cores e') (obstacles e') \<and> same_params e e' \<and>
           cores e' = cores e", OF _ run])
  fix po :: "env \<Rightarrow> int \<Rightarrow> env option" and e n e'
  assume IH: "\<And>e n e'. po e n = Some e' \<Longrightarrow>
      obstacles_ok e (cores e) (obstacles e) \<longrightarrow>
           obstacles_ok e' (cores e') (obstacles e') \<and> same_params e e' \<and>
           cores e' = cores e"
  let ?ob = "fst (draw_obstacle e)" and ?g = "snd (draw_obstacle e)"
  let ?e1 = "e\<lparr>rd := ?g\<rparr>"
  let ?e2 = "e\<lparr>rd := ?g, obstacles := obstacles e @ [?ob]\<rparr>"
  assume eq: "(if check_obstacle ?e1 ?ob then
        (if n - 1 = 0 then Some ?e2 else po ?e2 (n - 1))
      else (if n = 0 then Some ?e1 else po ?e1 n)) = Some e'"
  have sp1: "same_params e ?e1" and sp2: "same_params e ?e2"
    by (simp_all add: same_params_def)
  show "obstacles_ok e (cores e) (obstacles e) \<longrightarrow>
           obstacles_ok e' (cores e') (obstacles e') \<and> same_params e e' \<and>
           cores e' = cores e"
  proof
    assume ok: "obstacles_ok e (cores e) (obstacles e)"
    show "obstacles_ok e' (cores e') (obstacles e') \<and> same_params e e' \<and> cores e' = cores e"
    proof (cases "check_obstacle ?e1 ?ob")
      case True
      then have "clear_of_cores e (cores e) ?ob" "clear_of_obstacles (obstacles e) ?ob"
        by (simp_all add: check_obstacle_def split: if_splits)
      with ok have "obstacles_ok e (cores e) (obstacles e @ [?ob])"
        by (rule obstacles_ok_snoc)
      then have ok2: "obstacles_ok ?e2 (cores ?e2) (obstacles ?e2)"
        using obstacles_ok_params[OF sp2] by simp
      show ?thesis
      proof (cases "n - 1 = 0")
        case T: True
        with eq True have "e' = ?e2" by simp
        with ok2 sp2 show ?thesis by simp
      next
        case False
        with eq True have "po ?e2 (n - 1) = Some e'" by simp
        from IH[OF this] ok2
        have "obstacles_ok e' (cores e') (obstacles e') \<and> same_params ?e2 e' \<and>
              cores e' = cores ?e2" by blast
        then show ?thesis by (auto simp: same_params_def)
      qed
    next
      case False
      have ok1: "obstacles_ok ?e1 (cores ?e1) (obstacles ?e1)"
        using ok obstacles_ok_params[OF sp1] by simp
      show ?thesis
      proof (cases "n = 0")
        case True
        with eq False have "e' = ?e1" by simp
        with ok1 sp1 show ?thesis by simp
      next
        case F: False
        with eq False have "po ?e1 n = Some e'" by simp
        from IH[OF this] ok1
        have "obstacles_ok e' (cores e') (obstacles e') \<and> same_params ?e1 e' \<and>
              cores e' = cores ?e1" by blast
        then show ?thesis by (auto simp: same_params_def)
      qed
    qed
  qed
qed

lemma reset_inv:
  assumes "reset e nc no = Some (Inr (e', v))"
  shows "cores_ok e' (cores e') \<and> obstacles_ok e' (cores e') (obstacles e') \<and>
         same_params e e'"
proof -
  let ?e0 = "e\<lparr>cores := [], obstacles := []\<rparr>"
  from assms obtain e1 where pc: "place_cores ?e0 nc = Some (Inr e1)"
    and po: "place_obstacles e1 no = Some e'"
    by (auto simp: reset_def split: option.splits sum.splits if_splits)
  have "cores_ok ?e0 (cores ?e0)" by (simp add: cores_ok_def)
  with place_cores_inv[OF pc]
  have 1: "cores_ok e1 (cores e1)" "same_params ?e0 e1" "obstacles e1 = []" by simp_all
  then have "obstacles_ok e1 (cores e1) (obstacles e1)" by (simp add: obstacles_ok_def)
  with place_obstacles_inv[OF po]
  have 2: "obstacles_ok e' (cores e') (obstacles e')" "same_params e1 e'" "cores e' = cores e1"
    by blast+
  from 1(1) 2(2,3) have "cores_ok e' (cores e')"
    using pair_ok_params[OF 2(2)] by (simp add: cores_ok_def)
  moreover from 1(2) 2(2) have "same_params e e'" by (simp add: same_params_def)
  ultimately show ?thesis using 2(1) by simp
qed

subsection \<open>Run A, step by step\<close>

lemma run_a_place_cores:
  "place_cores (init_env run_a_stream) 2 =
     Some (Inr ((init_env (7/25 ## 17/50 ## 0 ## 23/50 ## 29/50 ## 0 ## sconst 0))
                  \<lparr>cores := run_a_cores\<rparr>))"
  apply (subst place_cores.simps)
  apply (simp add: draw_core_def uniform_def binomial_def check_core_def init_env_def
      run_a_stream_def run_a_cores_def)
  apply (subst place_cores.simps)
  apply (simp add: draw_core_def uniform_def binomial_def check_core_def init_env_def
      run_a_stream_def run_a_cores_def core_dis_def)
  done

lemma run_a_place_obstacles:
  "place_obstacles ((init_env (7/25 ## 17/50 ## 0 ## 23/50 ## 29/50 ## 0 ## sconst 0))
                      \<lparr>cores := run_a_cores\<rparr>) 2 = Some run_a_env"
  apply (subst place_obstacles.simps)
  apply (simp add: draw_obstacle_def uniform_def check_obstacle_def init_env_def
      run_a_obstacles_def run_a_cores_def core_obs_dis_def obs_dis_def run_a_env_def)
  apply (subst place_obstacles.simps)
  apply (simp add: draw_obstacle_def uniform_def check_obstacle_def init_env_def
      run_a_obstacles_def run_a_cores_def core_obs_dis_def obs_dis_def run_a_env_def)
  done

lemma run_a_velocity:
  "get_velocity run_a_env 5 5 = Inr (Fin (11/25), Fin (- 33/100))"
  by (simp add: get_velocity_def query_all_def core_centers_def run_a_cores_def init_env_def
      run_a_env_def point_dis_def upt_rec compute_speed_def np_div_def rotation_def
      fmat_vec_def fvec_add_def fvec_scale_def)

lemma run_a_reset:
  "reset (init_env run_a_stream) 2 2 = Some (Inr (run_a_env, (Fin (11/25), Fin (- 33/100))))"
proof -
  have c: "(init_env run_a_stream)\<lparr>cores := [], obstacles := []\<rparr> = init_env run_a_stream"
    by (simp add: init_env_def)
  have i: "initial run_a_env = (5, 5)"
    by (simp add: init_env_def run_a_env_def)
  have n: "run_a_cores \<noteq> []" by (simp add: run_a_cores_def)
  show ?thesis
    unfolding reset_def c
    by (simp add: run_a_place_cores run_a_place_obstacles n i run_a_velocity)
qed

lemma run_a_env_fields:
  "cores run_a_env = run_a_cores" "obstacles run_a_env = run_a_obstacles"
  "v_rel_max run_a_env = 1 / 2" "env_r run_a_env = 1 / 2" "env_p run_a_env = 4 / 5"
  by (simp_all add: run_a_env_def init_env_def)

section \<open>Separation of the accepted cores and obstacles\<close>

text \<open>
  C1. Whenever \<^verbatim>\<open>reset\<close> returns, whatever the generator, the parameters and the
  requested counts, any two different accepted cores with the same rotation sense lie
  at a distance of at least \<open>boundary(i) + boundary(j)\<close>, where
  \<open>boundary(c) = Gamma_c / (2 pi v_rel_max)\<close>.
\<close>

theorem reset_same_sense_separation:
  assumes "reset e num_cores num_obs = Some (Inr (e', v))"
    and "i < length (cores e')" and "j < length (cores e')" and "i \<noteq> j"
    and "clockwise (cores e' ! i) = clockwise (cores e' ! j)"
  shows "Gamma (cores e' ! i) / (2 * pi * v_rel_max e')
           + Gamma (cores e' ! j) / (2 * pi * v_rel_max e')
         \<le> core_dis (cores e' ! i) (cores e' ! j)"
proof -
  from reset_inv[OF assms(1)] have "cores_ok e' (cores e')" by simp
  from cores_ok_pair[OF this assms(2,3,4)] assms(5)
  show ?thesis by (simp add: pair_ok_def boundary_def)
qed

text \<open>In run A the two cores turn the same way: their boundaries add up to 10, their
  distance is 45.\<close>

theorem reset_same_sense_separation_witness:
  "reset (init_env run_a_stream) 2 2 = Some (Inr (run_a_env, (Fin (11/25), Fin (- 33/100))))
   \<and> (0::nat) < length (cores run_a_env) \<and> (1::nat) < length (cores run_a_env)
   \<and> clockwise (cores run_a_env ! 0) = clockwise (cores run_a_env ! 1)
   \<and> Gamma (cores run_a_env ! 0) / (2 * pi * v_rel_max run_a_env)
       + Gamma (cores run_a_env ! 1) / (2 * pi * v_rel_max run_a_env) = 10
   \<and> core_dis (cores run_a_env ! 0) (cores run_a_env ! 1) = 45
   \<and> Gamma (cores run_a_env ! 0) / (2 * pi * v_rel_max run_a_env)
       + Gamma (cores run_a_env ! 1) / (2 * pi * v_rel_max run_a_env)
      \<le> core_dis (cores run_a_env ! 0) (cores run_a_env ! 1)"
  using reset_same_sense_separation [OF run_a_reset, of 0 1]
  by (simp add: run_a_reset run_a_env_fields run_a_cores_def core_dis_def)

text \<open>
  C3. Whenever \<^verbatim>\<open>reset\<close> returns, every accepted obstacle is strictly farther than
  \<open>r + o.r\<close> from every core centre, and any two different accepted obstacles have a
  centre distance strictly greater than the sum of their radii.
\<close>

theorem reset_obstacle_separation:
  assumes "reset e num_cores num_obs = Some (Inr (e', v))"
  shows "(\<forall>c \<in> set (cores e'). \<forall>ob \<in> set (obstacles e').
            env_r e' + obs_r ob < core_obs_dis c ob)
       \<and> (\<forall>i < length (obstacles e'). \<forall>j < length (obstacles e'). i \<noteq> j \<longrightarrow>
            obs_r (obstacles e' ! i) + obs_r (obstacles e' ! j)
              < obs_dis (obstacles e' ! i) (obstacles e' ! j))"
proof -
  from reset_inv[OF assms] have ok: "obstacles_ok e' (cores e') (obstacles e')" by simp
  have "obs_r (obstacles e' ! i) + obs_r (obstacles e' ! j)
          < obs_dis (obstacles e' ! i) (obstacles e' ! j)"
    if "i < length (obstacles e')" "j < length (obstacles e')" "i \<noteq> j" for i j
  proof (cases "i < j")
    case True
    with ok that show ?thesis by (simp add: obstacles_ok_def)
  next
    case False
    with that have "j < i" by simp
    with ok that have "obs_r (obstacles e' ! j) + obs_r (obstacles e' ! i)
          < obs_dis (obstacles e' ! j) (obstacles e' ! i)" by (simp add: obstacles_ok_def)
    then show ?thesis by (simp add: obs_dis_sym add.commute)
  qed
  with ok show ?thesis by (simp add: obstacles_ok_def)
qed

text \<open>In run A the obstacles are at distance 15 from each other and at distances 10,
  35, 25 and 20 from the cores.\<close>

theorem reset_obstacle_separation_witness:
  "reset (init_env run_a_stream) 2 2 = Some (Inr (run_a_env, (Fin (11/25), Fin (- 33/100))))
   \<and> map (\<lambda>ob. map (\<lambda>c. core_obs_dis c ob) (cores run_a_env)) (obstacles run_a_env)
       = [[10, 35], [25, 20]]
   \<and> obs_dis (obstacles run_a_env ! 0) (obstacles run_a_env ! 1) = 15
   \<and> env_r run_a_env + obs_r (obstacles run_a_env ! 0)
        < core_obs_dis (cores run_a_env ! 0) (obstacles run_a_env ! 0)
   \<and> env_r run_a_env + obs_r (obstacles run_a_env ! 1)
        < core_obs_dis (cores run_a_env ! 1) (obstacles run_a_env ! 1)
   \<and> obs_r (obstacles run_a_env ! 0) + obs_r (obstacles run_a_env ! 1)
        < obs_dis (obstacles run_a_env ! 0) (obstacles run_a_env ! 1)"
  using reset_obstacle_separation [OF run_a_reset]
  by (simp add: run_a_reset run_a_env_fields run_a_cores_def run_a_obstacles_def
      core_obs_dis_def obs_dis_def)

section \<open>Accepted cores of opposite sense\<close>

subsection \<open>Generated circulation strengths are positive\<close>

lemma draw_core_rd: "snd (draw_core e) = stl (stl (stl (stl (rd e))))"
  by (simp add: draw_core_def uniform_def binomial_def Let_def split_def)

lemma draw_core_Gamma:
  "Gamma (fst (draw_core e)) =
     2 * pi * env_r e *
       (fst (v_range e) + (snd (v_range e) - fst (v_range e)) * shd (stl (stl (stl (rd e)))))"
  by (simp add: draw_core_def uniform_def binomial_def Let_def split_def)

lemma draw_core_Gamma_pos:
  assumes "0 < env_r e" and "0 < fst (v_range e)" and "fst (v_range e) \<le> snd (v_range e)"
    and "\<forall>u \<in> sset (rd e). 0 \<le> u"
  shows "0 < Gamma (fst (draw_core e))"
proof -
  have "shd (stl (stl (stl (rd e)))) \<in> sset (rd e)"
    by (meson shd_sset stl_sset)
  with assms(4) have "0 \<le> shd (stl (stl (stl (rd e))))" by blast
  with assms(3) have "0 \<le> (snd (v_range e) - fst (v_range e)) * shd (stl (stl (stl (rd e))))"
    by simp
  with assms(1,2) show ?thesis
    unfolding draw_core_Gamma by (simp add: add_pos_nonneg)
qed

lemma valid_speed_config_step:
  assumes "valid_speed_config e" and "sset g \<subseteq> sset (rd e)"
  shows "valid_speed_config (e\<lparr>rd := g\<rparr>)" and "valid_speed_config (e\<lparr>rd := g, cores := cs\<rparr>)"
  using assms by (auto simp: valid_speed_config_def)

lemma sset_draw_core: "sset (snd (draw_core e)) \<subseteq> sset (rd e)"
  unfolding draw_core_rd by (meson stl_sset subsetI)

lemma place_cores_pos:
  assumes run: "place_cores e0 n0 = Some res0"
  shows "\<forall>e'. res0 = Inr e' \<longrightarrow> valid_speed_config e0 \<longrightarrow>
           (\<forall>c \<in> set (cores e0). 0 < Gamma c) \<longrightarrow> (\<forall>c \<in> set (cores e'). 0 < Gamma c)"
proof (rule place_cores.raw_induct
    [where P = "\<lambda>e n res. \<forall>e'. res = Inr e' \<longrightarrow> valid_speed_config e \<longrightarrow>
           (\<forall>c \<in> set (cores e). 0 < Gamma c) \<longrightarrow> (\<forall>c \<in> set (cores e'). 0 < Gamma c)",
      OF _ run])
  fix pc :: "env \<Rightarrow> int \<Rightarrow> (py_error + env) option" and e n res
  assume IH: "\<And>e n res. pc e n = Some res \<Longrightarrow>
      \<forall>e'. res = Inr e' \<longrightarrow> valid_speed_config e \<longrightarrow>
           (\<forall>c \<in> set (cores e). 0 < Gamma c) \<longrightarrow> (\<forall>c \<in> set (cores e'). 0 < Gamma c)"
  let ?c = "fst (draw_core e)" and ?g = "snd (draw_core e)"
  let ?e1 = "e\<lparr>rd := ?g\<rparr>"
  let ?e2 = "e\<lparr>rd := ?g, cores := cores e @ [?c]\<rparr>"
  assume eq: "(case check_core ?e1 ?c of
        Inl err \<Rightarrow> Some (Inl err)
      | Inr ok \<Rightarrow>
          (if ok then (if n - 1 = 0 then Some (Inr ?e2) else pc ?e2 (n - 1))
           else (if n = 0 then Some (Inr ?e1) else pc ?e1 n))) = Some res"
  show "\<forall>e'. res = Inr e' \<longrightarrow> valid_speed_config e \<longrightarrow>
           (\<forall>c \<in> set (cores e). 0 < Gamma c) \<longrightarrow> (\<forall>c \<in> set (cores e'). 0 < Gamma c)"
  proof (intro allI impI)
    fix e' assume r: "res = Inr e'" and v: "valid_speed_config e"
      and pos: "\<forall>c \<in> set (cores e). 0 < Gamma c"
    from v have "0 < env_r e" "0 < fst (v_range e)" "fst (v_range e) \<le> snd (v_range e)"
      "\<forall>u \<in> sset (rd e). 0 \<le> u" unfolding valid_speed_config_def by blast+
    then have "0 < Gamma ?c" by (rule draw_core_Gamma_pos)
    with pos have pos2: "\<forall>c \<in> set (cores ?e2). 0 < Gamma c" by simp
    from pos have pos1: "\<forall>c \<in> set (cores ?e1). 0 < Gamma c" by simp
    note v1 = valid_speed_config_step(1)[OF v sset_draw_core]
    note v2 = valid_speed_config_step(2)[OF v sset_draw_core, of "cores e @ [?c]"]
    have "e' = ?e2 \<or> e' = ?e1 \<or> pc ?e2 (n - 1) = Some (Inr e') \<or> pc ?e1 n = Some (Inr e')"
    proof (cases "check_core ?e1 ?c")
      case (Inl err)
      with eq r show ?thesis by simp
    next
      case (Inr b)
      show ?thesis
      proof (cases b)
        case True
        with eq r Inr show ?thesis by (cases "n - 1 = 0") simp_all
      next
        case False
        with eq r Inr show ?thesis by (cases "n = 0") simp_all
      qed
    qed
    then consider "e' = ?e2" | "e' = ?e1" | "pc ?e2 (n - 1) = Some (Inr e')"
      | "pc ?e1 n = Some (Inr e')" by blast
    then show "\<forall>c \<in> set (cores e'). 0 < Gamma c"
    proof cases
      case 1 with pos2 show ?thesis by simp
    next
      case 2 with pos1 show ?thesis by simp
    next
      case 3 from IH[OF this] v2 pos2 show ?thesis by blast
    next
      case 4 from IH[OF this] v1 pos1 show ?thesis by blast
    qed
  qed
qed

lemma place_obstacles_cores:
  assumes run: "place_obstacles e0 n0 = Some e0'"
  shows "cores e0' = cores e0"
proof (rule place_obstacles.raw_induct [where P = "\<lambda>e n e'. cores e' = cores e", OF _ run])
  fix po :: "env \<Rightarrow> int \<Rightarrow> env option" and e n e'
  assume IH: "\<And>e n e'. po e n = Some e' \<Longrightarrow> cores e' = cores e"
  let ?ob = "fst (draw_obstacle e)" and ?g = "snd (draw_obstacle e)"
  let ?e1 = "e\<lparr>rd := ?g\<rparr>"
  let ?e2 = "e\<lparr>rd := ?g, obstacles := obstacles e @ [?ob]\<rparr>"
  assume eq: "(if check_obstacle ?e1 ?ob then
        (if n - 1 = 0 then Some ?e2 else po ?e2 (n - 1))
      else (if n = 0 then Some ?e1 else po ?e1 n)) = Some e'"
  have "e' = ?e2 \<or> e' = ?e1 \<or> po ?e2 (n - 1) = Some e' \<or> po ?e1 n = Some e'"
  proof (cases "check_obstacle ?e1 ?ob")
    case True
    with eq show ?thesis by (cases "n - 1 = 0") simp_all
  next
    case False
    with eq show ?thesis by (cases "n = 0") simp_all
  qed
  then consider "e' = ?e2" | "e' = ?e1" | "po ?e2 (n - 1) = Some e'" | "po ?e1 n = Some e'"
    by blast
  then show "cores e' = cores e"
  proof cases
    case 3 from IH[OF this] show ?thesis by simp
  next
    case 4 from IH[OF this] show ?thesis by simp
  qed simp_all
qed

lemma reset_Gamma_pos:
  assumes "reset e nc no = Some (Inr (e', v))" and "valid_speed_config e"
    and "c \<in> set (cores e')"
  shows "0 < Gamma c"
proof -
  let ?e0 = "e\<lparr>cores := [], obstacles := []\<rparr>"
  from assms(1) obtain e1 where pc: "place_cores ?e0 nc = Some (Inr e1)"
    and po: "place_obstacles e1 no = Some e'"
    by (auto simp: reset_def split: option.splits sum.splits if_splits)
  from assms(2) have "valid_speed_config ?e0" by (simp add: valid_speed_config_def)
  with place_cores_pos[OF pc] have "\<forall>c \<in> set (cores e1). 0 < Gamma c" by simp
  with place_obstacles_cores[OF po] assms(3) show ?thesis by simp
qed

subsection \<open>Run B, step by step\<close>

lemma run_b_place_cores:
  "place_cores (init_env run_b_stream) 2 =
     Some (Inr ((init_env (7/25 ## 17/50 ## 0 ## sconst 0))\<lparr>cores := run_b_cores\<rparr>))"
  apply (subst place_cores.simps)
  apply (simp add: draw_core_def uniform_def binomial_def check_core_def init_env_def
      run_b_stream_def run_b_cores_def)
  apply (subst place_cores.simps)
  apply (simp add: draw_core_def uniform_def binomial_def check_core_def init_env_def
      run_b_stream_def run_b_cores_def core_dis_def np_div_def)
  done

lemma run_b_place_obstacles:
  "place_obstacles ((init_env (7/25 ## 17/50 ## 0 ## sconst 0))\<lparr>cores := run_b_cores\<rparr>) 1
     = Some run_b_env"
  apply (subst place_obstacles.simps)
  apply (simp add: draw_obstacle_def uniform_def check_obstacle_def init_env_def
      run_b_cores_def core_obs_dis_def obs_dis_def run_b_env_def)
  done

lemma run_b_velocity:
  "get_velocity run_b_env 5 5 = Inr (Fin (9/25), Fin (- 27/100))"
  by (simp add: get_velocity_def query_all_def core_centers_def run_b_cores_def init_env_def
      run_b_env_def point_dis_def upt_rec compute_speed_def np_div_def rotation_def
      fmat_vec_def fvec_add_def fvec_scale_def)

lemma run_b_reset:
  "reset (init_env run_b_stream) 2 1 = Some (Inr (run_b_env, (Fin (9/25), Fin (- 27/100))))"
proof -
  have c: "(init_env run_b_stream)\<lparr>cores := [], obstacles := []\<rparr> = init_env run_b_stream"
    by (simp add: init_env_def)
  have i: "initial run_b_env = (5, 5)"
    by (simp add: init_env_def run_b_env_def)
  have n: "run_b_cores \<noteq> []" by (simp add: run_b_cores_def)
  show ?thesis
    unfolding reset_def c
    by (simp add: run_b_place_cores run_b_place_obstacles n i run_b_velocity)
qed

lemma run_b_env_fields:
  "cores run_b_env = run_b_cores" "env_r run_b_env = 1 / 2" "env_p run_b_env = 4 / 5"
  by (simp_all add: run_b_env_def init_env_def)

lemma run_b_valid:
  "0 < env_r (init_env run_b_stream)" "0 < fst (v_range (init_env run_b_stream))"
  "fst (v_range (init_env run_b_stream)) \<le> snd (v_range (init_env run_b_stream))"
  "\<forall>u \<in> sset (rd (init_env run_b_stream)). 0 \<le> u"
  by (simp_all add: init_env_def run_b_stream_def)

subsection \<open>What an accepted opposite pair satisfies\<close>

lemma pair_ok_opposite:
  assumes "pair_ok e ci cj" and "clockwise ci \<noteq> clockwise cj"
    and "0 < max (Gamma ci) (Gamma cj)"
  shows "core_dis ci cj - 2 * env_r e \<noteq> 0 \<and>
         max (Gamma ci) (Gamma cj) / (2 * pi * (core_dis ci cj - 2 * env_r e))
           \<le> env_p e * (min (Gamma ci) (Gamma cj) / (2 * pi * env_r e))"
proof -
  let ?den = "2 * pi * (core_dis ci cj - 2 * env_r e)"
  let ?rhs = "env_p e * (min (Gamma ci) (Gamma cj) / (2 * pi * env_r e))"
  from assms(1,2) have ng: "\<not> fgt (np_div (max (Gamma ci) (Gamma cj)) ?den) (Fin ?rhs)"
    by (simp add: pair_ok_def)
  have den: "?den \<noteq> 0"
  proof
    assume "?den = 0"
    with assms(3) have "np_div (max (Gamma ci) (Gamma cj)) ?den = PInf"
      by (simp add: np_div_def)
    with ng show False by simp
  qed
  then have "np_div (max (Gamma ci) (Gamma cj)) ?den = Fin (max (Gamma ci) (Gamma cj) / ?den)"
    by (simp add: np_div_def)
  with ng have "max (Gamma ci) (Gamma cj) / ?den \<le> ?rhs" by simp
  moreover from den have "core_dis ci cj - 2 * env_r e \<noteq> 0" by simp
  ultimately show ?thesis by blast
qed

text \<open>
  C2. Whenever \<^verbatim>\<open>reset\<close> returns from a configuration with a positive core radius
  and a positive speed range (so that every circulation strength is positive), any two
  accepted cores with opposite rotation senses, at distance \<open>d\<close>, with \<open>Gamma_l\<close> the
  larger and \<open>Gamma_s\<close> the smaller of their strengths, satisfy \<open>d \<noteq> 2 r\<close> and
  \<open>Gamma_l / (2 pi (d - 2 r)) \<le> p * Gamma_s / (2 pi r)\<close>.
\<close>

theorem reset_opposite_sense_bound:
  assumes "reset e num_cores num_obs = Some (Inr (e', v))"
    and "0 < env_r e" and "0 < fst (v_range e)" and "fst (v_range e) \<le> snd (v_range e)"
    and "\<forall>u \<in> sset (rd e). 0 \<le> u"
    and "i < length (cores e')" and "j < length (cores e')"
    and "clockwise (cores e' ! i) \<noteq> clockwise (cores e' ! j)"
  shows "core_dis (cores e' ! i) (cores e' ! j) - 2 * env_r e' \<noteq> 0 \<and>
         max (Gamma (cores e' ! i)) (Gamma (cores e' ! j))
             / (2 * pi * (core_dis (cores e' ! i) (cores e' ! j) - 2 * env_r e'))
           \<le> env_p e' * (min (Gamma (cores e' ! i)) (Gamma (cores e' ! j)) / (2 * pi * env_r e'))"
proof -
  from assms(8) have ne: "i \<noteq> j" by auto
  from reset_inv[OF assms(1)] have "cores_ok e' (cores e')" by simp
  from cores_ok_pair[OF this assms(6,7) ne]
  have ok: "pair_ok e' (cores e' ! i) (cores e' ! j)" .
  from assms(2-5) have "valid_speed_config e" by (simp add: valid_speed_config_def)
  from reset_Gamma_pos[OF assms(1) this, of "cores e' ! i"] assms(6)
  have "0 < Gamma (cores e' ! i)" by simp
  then have "0 < max (Gamma (cores e' ! i)) (Gamma (cores e' ! j))" by simp
  from pair_ok_opposite[OF ok assms(8) this] show ?thesis .
qed

text \<open>In run B the cores turn opposite ways at distance 45: the left side is 5/88, the
  right side 4.\<close>

theorem reset_opposite_sense_bound_witness:
  "reset (init_env run_b_stream) 2 1 = Some (Inr (run_b_env, (Fin (9/25), Fin (- 27/100))))
   \<and> clockwise (cores run_b_env ! 0) \<noteq> clockwise (cores run_b_env ! 1)
   \<and> core_dis (cores run_b_env ! 0) (cores run_b_env ! 1) = 45
   \<and> max (Gamma (cores run_b_env ! 0)) (Gamma (cores run_b_env ! 1))
             / (2 * pi * (core_dis (cores run_b_env ! 0) (cores run_b_env ! 1)
                           - 2 * env_r run_b_env)) = 5 / 88
   \<and> env_p run_b_env * (min (Gamma (cores run_b_env ! 0)) (Gamma (cores run_b_env ! 1))
                         / (2 * pi * env_r run_b_env)) = 4
   \<and> max (Gamma (cores run_b_env ! 0)) (Gamma (cores run_b_env ! 1))
             / (2 * pi * (core_dis (cores run_b_env ! 0) (cores run_b_env ! 1)
                           - 2 * env_r run_b_env))
       \<le> env_p run_b_env * (min (Gamma (cores run_b_env ! 0)) (Gamma (cores run_b_env ! 1))
                         / (2 * pi * env_r run_b_env))"
  using reset_opposite_sense_bound [OF run_b_reset run_b_valid, of 0 1]
  by (simp add: run_b_reset run_b_env_fields run_b_cores_def core_dis_def)

section \<open>The velocity loop\<close>

subsection \<open>The occlusion loop does nothing\<close>

lemma occlusion_loop_id: "occlusion_loop vs v_radial k = k"
  by (induction vs) simp_all

lemma velocity_loop_nofilter_eq:
  "velocity_loop e x y idx v_radial_set v_velocity = velocity_loop_nofilter e x y idx v_velocity"
proof (induction idx arbitrary: v_radial_set v_velocity)
  case Nil
  show ?case by simp
next
  case (Cons i idx)
  show ?case
    by (simp add: occlusion_loop_id Let_def Cons.IH split: sum.split)
qed

lemma get_velocity_nofilter_eq: "get_velocity e x y = get_velocity_nofilter e x y"
  by (simp add: get_velocity_def get_velocity_nofilter_def velocity_loop_nofilter_eq
      split: sum.split query_result.split)

subsection \<open>Away from the core centres the loop adds real numbers\<close>

lemma compute_speed_fin:
  assumes "0 < d"
  shows "compute_speed e G d = Inr (Fin (speed_spec (env_r e) G d))"
proof (cases "d \<le> env_r e")
  case True
  with assms have "0 < env_r e" by simp
  with True show ?thesis
    by (simp add: compute_speed_def speed_spec_def power2_eq_square)
next
  case False
  with assms show ?thesis
    by (simp add: compute_speed_def speed_spec_def np_div_def)
qed

lemma point_dis_pos:
  assumes "(a, b) \<noteq> (x, y)"
  shows "0 < sqrt ((a - x) * (a - x) + (b - y) * (b - y))"
proof -
  from assms have "a - x \<noteq> 0 \<or> b - y \<noteq> 0" by auto
  then have "0 < (a - x) * (a - x) + (b - y) * (b - y)"
    by (metis not_sum_squares_lt_zero sum_squares_eq_zero_iff antisym_conv3)
  then show ?thesis by simp
qed

lemma tangent_scale:
  assumes "d \<noteq> 0"
  shows "fvec_add (Fin a, Fin b)
           (fvec_scale (fmat_vec (rotation cw) (np_div u d, np_div w d)) (Fin s))
         = (if cw then (Fin (a + - (w / d) * s), Fin (b + u / d * s))
            else (Fin (a + w / d * s), Fin (b + - (u / d) * s)))"
  using assms
  by (simp add: fvec_add_def fvec_scale_def fmat_vec_def rotation_def np_div_def)

lemma velocity_step:
  assumes "(core_x c, core_y c) \<noteq> (x, y)"
  defines "dis \<equiv> sqrt ((core_x c - x) * (core_x c - x) + (core_y c - y) * (core_y c - y))"
  shows "fvec_add (Fin a, Fin b)
           (fvec_scale
              (fmat_vec (rotation (clockwise c))
                 (np_div (core_x c - x) dis, np_div (core_y c - y) dis))
              (Fin (speed_spec (env_r e) (Gamma c) dis)))
         = (Fin (a + fst (contribution e x y c)), Fin (b + snd (contribution e x y c)))"
proof -
  from point_dis_pos[OF assms(1)] have "0 < dis" unfolding dis_def .
  then have d: "dis \<noteq> 0" by simp
  have c: "contribution e x y c =
     (if clockwise c
      then (- ((core_y c - y) / dis) * speed_spec (env_r e) (Gamma c) dis,
            (core_x c - x) / dis * speed_spec (env_r e) (Gamma c) dis)
      else ((core_y c - y) / dis * speed_spec (env_r e) (Gamma c) dis,
            - ((core_x c - x) / dis) * speed_spec (env_r e) (Gamma c) dis))"
    by (simp add: contribution_def point_dis_def Let_def dis_def)
  show ?thesis unfolding tangent_scale[OF d] c by simp
qed

lemma velocity_loop_nofilter_sum:
  assumes "\<forall>i \<in> set idx. i < length (cores e) \<and>
             (core_x (cores e ! i), core_y (cores e ! i)) \<noteq> (x, y)"
  shows "velocity_loop_nofilter e x y idx (Fin a, Fin b) =
           Inr (Fin (a + sum_list (map (\<lambda>i. fst (contribution e x y (cores e ! i))) idx)),
                Fin (b + sum_list (map (\<lambda>i. snd (contribution e x y (cores e ! i))) idx)))"
  using assms
proof (induction idx arbitrary: a b)
  case Nil
  show ?case by simp
next
  case (Cons i idx)
  let ?c = "cores e ! i"
  let ?dis = "sqrt ((core_x ?c - x) * (core_x ?c - x) + (core_y ?c - y) * (core_y ?c - y))"
  from Cons.prems have i: "i < length (cores e)" and ne: "(core_x ?c, core_y ?c) \<noteq> (x, y)"
    by simp_all
  from point_dis_pos[OF ne] have sp: "compute_speed e (Gamma ?c) ?dis
      = Inr (Fin (speed_spec (env_r e) (Gamma ?c) ?dis))"
    by (rule compute_speed_fin)
  from Cons.prems have rest: "\<forall>i \<in> set idx. i < length (cores e) \<and>
             (core_x (cores e ! i), core_y (cores e ! i)) \<noteq> (x, y)" by simp
  have "velocity_loop_nofilter e x y (i # idx) (Fin a, Fin b) =
        velocity_loop_nofilter e x y idx
          (Fin (a + fst (contribution e x y ?c)), Fin (b + snd (contribution e x y ?c)))"
    using i by (simp add: Let_def sp velocity_step[OF ne])
  also have "\<dots> = Inr (Fin (a + fst (contribution e x y ?c)
                     + sum_list (map (\<lambda>i. fst (contribution e x y (cores e ! i))) idx)),
                Fin (b + snd (contribution e x y ?c)
                     + sum_list (map (\<lambda>i. snd (contribution e x y (cores e ! i))) idx)))"
    by (rule Cons.IH[OF rest])
  finally show ?case by (simp add: add.assoc)
qed

subsection \<open>Any order of the indices gives the sum over the cores\<close>

lemma sum_list_perm_nth:
  fixes f :: "'a \<Rightarrow> real"
  assumes "mset idx = mset [0..<length cs]"
  shows "sum_list (map (\<lambda>i. f (cs ! i)) idx) = sum_list (map f cs)"
proof -
  have "sum_list (map (\<lambda>i. f (cs ! i)) idx) = sum_mset (image_mset (\<lambda>i. f (cs ! i)) (mset idx))"
    by (simp add: sum_mset_sum_list [symmetric])
  also have "\<dots> = sum_list (map (\<lambda>i. f (cs ! i)) [0..<length cs])"
    by (simp add: assms sum_mset_sum_list [symmetric])
  also have "map (\<lambda>i. f (cs ! i)) [0..<length cs] = map f cs"
    by (rule nth_equalityI) simp_all
  finally show ?thesis .
qed

lemma velocity_loop_any_order:
  assumes "mset idx = mset [0..<length (cores e)]"
    and "\<forall>c \<in> set (cores e). (core_x c, core_y c) \<noteq> (x, y)"
  shows "velocity_loop e x y idx [] (Fin 0, Fin 0) =
           Inr (Fin (fst (velocity_sum e x y)), Fin (snd (velocity_sum e x y)))"
proof -
  from assms(1) have "set idx = {0..<length (cores e)}"
    by (metis set_mset_mset set_upt)
  with assms(2) have "\<forall>i \<in> set idx. i < length (cores e) \<and>
             (core_x (cores e ! i), core_y (cores e ! i)) \<noteq> (x, y)" by simp
  from velocity_loop_nofilter_sum[OF this, of 0 0] show ?thesis
    by (simp add: velocity_loop_nofilter_eq velocity_sum_def
        sum_list_perm_nth[OF assms(1), of "\<lambda>c. fst (contribution e x y c)"]
        sum_list_perm_nth[OF assms(1), of "\<lambda>c. snd (contribution e x y c)"])
qed

lemma get_velocity_sum:
  assumes "2 \<le> length (cores e)"
    and "\<forall>c \<in> set (cores e). (core_x c, core_y c) \<noteq> (x, y)"
  shows "get_velocity e x y =
           Inr (Fin (fst (velocity_sum e x y)), Fin (snd (velocity_sum e x y)))"
proof -
  let ?idx = "sort_key (\<lambda>i. point_dis (core_centers e ! i) (x, y)) [0..<length (core_centers e)]"
  have len: "length (core_centers e) = length (cores e)" by (simp add: core_centers_def)
  from assms(1) have "length (cores e) \<noteq> 0" "length (cores e) \<noteq> 1" by auto
  then have "query_all (core_centers e) (x, y) = Inr (Indices ?idx)"
    by (simp add: query_all_def len)
  have q: "query_all (core_centers e) (x, y) = Inr (Indices ?idx)" by fact
  have "mset ?idx = mset [0..<length (cores e)]" by (simp add: len)
  then have "velocity_loop e x y ?idx [] (Fin 0, Fin 0) =
           Inr (Fin (fst (velocity_sum e x y)), Fin (snd (velocity_sum e x y)))"
    using assms(2) by (rule velocity_loop_any_order)
  with q show ?thesis
    by (simp add: get_velocity_def)
qed

subsection \<open>What \<^verbatim>\<open>get_velocity\<close> raises\<close>

text \<open>
  Distances are real numbers here: a query point so far from the cores that the float
  distance overflows is not covered by the lemmas of this subsection.
\<close>

lemma compute_speed_no_error:
  assumes "env_r e \<noteq> 0"
  shows "\<exists>s. compute_speed e G d = Inr s"
  using assms by (simp add: compute_speed_def)

lemma velocity_loop_nofilter_total:
  assumes "\<forall>i \<in> set idx. i < length (cores e)" and "env_r e \<noteq> 0"
  shows "\<exists>v. velocity_loop_nofilter e x y idx acc = Inr v"
  using assms(1)
proof (induction idx arbitrary: acc)
  case Nil
  show ?case by simp
next
  case (Cons i idx)
  let ?c = "cores e ! i"
  let ?dis = "sqrt ((core_x ?c - x) * (core_x ?c - x) + (core_y ?c - y) * (core_y ?c - y))"
  from compute_speed_no_error[OF assms(2)] obtain s
    where s: "compute_speed e (Gamma ?c) ?dis = Inr s" by blast
  from Cons.prems have i: "i < length (cores e)" and rest: "\<forall>i \<in> set idx. i < length (cores e)"
    by simp_all
  from Cons.IH[OF rest] i s show ?case by (simp add: Let_def)
qed

lemma get_velocity_total:
  assumes "2 \<le> length (cores e)" and "env_r e \<noteq> 0"
  shows "\<exists>v. get_velocity e x y = Inr v"
proof -
  let ?idx = "sort_key (\<lambda>i. point_dis (core_centers e ! i) (x, y)) [0..<length (core_centers e)]"
  have len: "length (core_centers e) = length (cores e)" by (simp add: core_centers_def)
  from assms(1) have "length (cores e) \<noteq> 0" "length (cores e) \<noteq> 1" by auto
  then have q: "query_all (core_centers e) (x, y) = Inr (Indices ?idx)"
    by (simp add: query_all_def len)
  have "\<forall>i \<in> set ?idx. i < length (cores e)" by (simp add: len)
  from velocity_loop_nofilter_total[OF this assms(2)] q show ?thesis
    by (simp add: get_velocity_def velocity_loop_nofilter_eq)
qed

lemma get_velocity_one_core:
  assumes "length (cores e) = 1"
  shows "get_velocity e x y = Inl TypeError"
  using assms by (simp add: get_velocity_def query_all_def core_centers_def)

subsection \<open>Run C, step by step\<close>

lemma run_c_place_cores:
  "place_cores (init_env run_c_stream) 1 =
     Some (Inr ((init_env (7/10 ## 9/10 ## 0 ## sconst 0))
             \<lparr>cores := [\<lparr>core_x = 8, core_y = 9, clockwise = False, Gamma = 5 * pi\<rparr>]\<rparr>))"
  apply (subst place_cores.simps)
  apply (simp add: draw_core_def uniform_def binomial_def check_core_def init_env_def
      run_c_stream_def)
  done

lemma run_c_place_obstacles:
  "place_obstacles ((init_env (7/10 ## 9/10 ## 0 ## sconst 0))
             \<lparr>cores := [\<lparr>core_x = 8, core_y = 9, clockwise = False, Gamma = 5 * pi\<rparr>]\<rparr>) 1
     = Some run_c_env"
  apply (subst place_obstacles.simps)
  apply (simp add: draw_obstacle_def uniform_def check_obstacle_def init_env_def
      core_obs_dis_def run_c_env_def)
  done

lemma run_c_reset: "reset (init_env run_c_stream) 1 1 = Some (Inl TypeError)"
proof -
  have c: "(init_env run_c_stream)\<lparr>cores := [], obstacles := []\<rparr> = init_env run_c_stream"
    by (simp add: init_env_def)
  have "length (cores run_c_env) = 1" by (simp add: run_c_env_def)
  then have "get_velocity run_c_env (fst (initial run_c_env)) (snd (initial run_c_env))
               = Inl TypeError"
    by (rule get_velocity_one_core)
  then show ?thesis
    unfolding reset_def c
    by (simp add: run_c_place_cores run_c_place_obstacles)
qed

section \<open>The velocity at a point\<close>

text \<open>
  C5. The specification states that at every query point that is not a core centre
  \<^verbatim>\<open>get_velocity\<close> returns the sum over all cores of rotation times unit radial
  vector times speed, and that the occlusion check excludes no core. With two or more
  cores both hold: \<open>get_velocity_sum\<close> gives the sum, \<open>velocity_loop_any_order\<close> gives
  it for every order in which the k-d tree may rank the cores, and
  \<open>get_velocity_nofilter_eq\<close> removes the occlusion loop in every environment. With
  exactly one core the first part fails: the k-d tree query returns a scalar index,
  \<^verbatim>\<open>list(idx)\<close> raises \<^verbatim>\<open>TypeError\<close>, and no velocity is returned. In run C the
  query point \<open>(5, 5)\<close> is not the core centre \<open>(8, 9)\<close>, the sum is \<open>(2/5, -3/10)\<close>,
  and \<^verbatim>\<open>get_velocity\<close> raises, and with it \<^verbatim>\<open>reset(1, 1)\<close>, which calls it.
\<close>

theorem get_velocity_single_core_raises:
  "(core_x (cores run_c_env ! 0), core_y (cores run_c_env ! 0)) = (8, 9)
   \<and> velocity_sum run_c_env 5 5 = (2 / 5, - 3 / 10)
   \<and> get_velocity run_c_env 5 5 = Inl TypeError
   \<and> reset (init_env run_c_stream) 1 1 = Some (Inl TypeError)"
proof -
  have "length (cores run_c_env) = 1" by (simp add: run_c_env_def)
  then have "get_velocity run_c_env 5 5 = Inl TypeError" by (rule get_velocity_one_core)
  moreover have "velocity_sum run_c_env 5 5 = (2 / 5, - 3 / 10)"
    by (simp add: velocity_sum_def contribution_def run_c_env_def init_env_def point_dis_def
        speed_spec_def)
  moreover have "(core_x (cores run_c_env ! 0), core_y (cores run_c_env ! 0)) = (8, 9)"
    by (simp add: run_c_env_def)
  ultimately show ?thesis using run_c_reset by simp
qed

lemma run_a_velocity_at_centre:
  "get_velocity run_a_env 8 9 = Inr (Fin (2 / 45), Fin (- 1 / 30))"
  by (simp add: get_velocity_def query_all_def core_centers_def run_a_cores_def init_env_def
      run_a_env_def point_dis_def upt_rec compute_speed_def np_div_def rotation_def
      fmat_vec_def fvec_add_def fvec_scale_def)

text \<open>
  C9. The specification states that \<^verbatim>\<open>get_velocity\<close> fails at no query point, inside
  or outside the domain, core centres included. With exactly one core it fails at
  every point: the k-d tree query returns a scalar index and \<^verbatim>\<open>list(idx)\<close> raises
  \<^verbatim>\<open>TypeError\<close>. Run C has its only core at \<open>(8, 9)\<close>; the query points below are that
  centre, a point of the domain and a point outside it. (With two cores, at a core
  centre, \<^verbatim>\<open>v_radial /= dis\<close> divides zero by zero and the radial vector is not a
  number, but the speed there is 0 and the product with it is zero: in run A the
  velocity at \<open>(8, 9)\<close> is what the other core contributes,
  \<open>run_a_velocity_at_centre\<close>.)
\<close>

theorem get_velocity_fails_with_one_core:
  "length (cores run_c_env) = 1
   \<and> (core_x (cores run_c_env ! 0), core_y (cores run_c_env ! 0)) = (8, 9)
   \<and> get_velocity run_c_env 8 9 = Inl TypeError
   \<and> get_velocity run_c_env 25 30 = Inl TypeError
   \<and> get_velocity run_c_env 60 (- 3) = Inl TypeError"
proof -
  have l: "length (cores run_c_env) = 1" by (simp add: run_c_env_def)
  have c: "(core_x (cores run_c_env ! 0), core_y (cores run_c_env ! 0)) = (8, 9)"
    by (simp add: run_c_env_def)
  from l c get_velocity_one_core[OF l] show ?thesis by simp
qed

section \<open>The placement loops have no retry budget\<close>

lemma place_cores_nonempty:
  assumes run: "place_cores e0 n0 = Some res0"
  shows "\<forall>e'. res0 = Inr e' \<longrightarrow> cores e' \<noteq> []"
proof (rule place_cores.raw_induct
    [where P = "\<lambda>e n res. \<forall>e'. res = Inr e' \<longrightarrow> cores e' \<noteq> []", OF _ run])
  fix pc :: "env \<Rightarrow> int \<Rightarrow> (py_error + env) option" and e n res
  assume IH: "\<And>e n res. pc e n = Some res \<Longrightarrow> \<forall>e'. res = Inr e' \<longrightarrow> cores e' \<noteq> []"
  let ?c = "fst (draw_core e)" and ?g = "snd (draw_core e)"
  let ?e1 = "e\<lparr>rd := ?g\<rparr>"
  let ?e2 = "e\<lparr>rd := ?g, cores := cores e @ [?c]\<rparr>"
  assume eq: "(case check_core ?e1 ?c of
        Inl err \<Rightarrow> Some (Inl err)
      | Inr ok \<Rightarrow>
          (if ok then (if n - 1 = 0 then Some (Inr ?e2) else pc ?e2 (n - 1))
           else (if n = 0 then Some (Inr ?e1) else pc ?e1 n))) = Some res"
  show "\<forall>e'. res = Inr e' \<longrightarrow> cores e' \<noteq> []"
  proof (intro allI impI)
    fix e' assume r: "res = Inr e'"
    show "cores e' \<noteq> []"
    proof (cases "check_core ?e1 ?c")
      case (Inl err)
      with eq r show ?thesis by simp
    next
      case (Inr b)
      show ?thesis
      proof (cases b)
        case True
        show ?thesis
        proof (cases "n - 1 = 0")
          case T: True
          with eq Inr True r have "e' = ?e2" by simp
          then show ?thesis by simp
        next
          case False
          with eq Inr True r have "pc ?e2 (n - 1) = Some (Inr e')" by simp
          from IH[OF this] show ?thesis by simp
        qed
      next
        case False
        with Inr have ne: "cores e \<noteq> []" by (auto simp: check_core_def)
        show ?thesis
        proof (cases "n = 0")
          case True
          with eq Inr False r have "e' = ?e1" by simp
          with ne show ?thesis by simp
        next
          case F: False
          with eq Inr False r have "pc ?e1 n = Some (Inr e')" by simp
          from IH[OF this] show ?thesis by simp
        qed
      qed
    qed
  qed
qed

lemma always_rejected_skip:
  assumes "always_rejected e"
  shows "always_rejected (skip_obstacle e)"
  unfolding always_rejected_def
proof
  fix k
  have "(skip_obstacle ^^ k) (skip_obstacle e) = (skip_obstacle ^^ Suc k) e"
    by (simp add: funpow_swap1)
  with assms show "\<not> check_obstacle (skip_obstacle ((skip_obstacle ^^ k) (skip_obstacle e)))
                      (fst (draw_obstacle ((skip_obstacle ^^ k) (skip_obstacle e))))"
    unfolding always_rejected_def by (metis)
qed

lemma place_obstacles_never_returns:
  assumes run: "place_obstacles e0 n0 = Some e0'"
  shows "\<not> (always_rejected e0 \<and> n0 \<noteq> 0)"
proof (rule place_obstacles.raw_induct
    [where P = "\<lambda>e n e'. \<not> (always_rejected e \<and> n \<noteq> 0)", OF _ run])
  fix po :: "env \<Rightarrow> int \<Rightarrow> env option" and e n e'
  assume IH: "\<And>e n e'. po e n = Some e' \<Longrightarrow> \<not> (always_rejected e \<and> n \<noteq> 0)"
  let ?ob = "fst (draw_obstacle e)" and ?g = "snd (draw_obstacle e)"
  let ?e1 = "e\<lparr>rd := ?g\<rparr>"
  let ?e2 = "e\<lparr>rd := ?g, obstacles := obstacles e @ [?ob]\<rparr>"
  assume eq: "(if check_obstacle ?e1 ?ob then
        (if n - 1 = 0 then Some ?e2 else po ?e2 (n - 1))
      else (if n = 0 then Some ?e1 else po ?e1 n)) = Some e'"
  show "\<not> (always_rejected e \<and> n \<noteq> 0)"
  proof
    assume a: "always_rejected e \<and> n \<noteq> 0"
    then have "\<not> check_obstacle (skip_obstacle ((skip_obstacle ^^ 0) e))
                      (fst (draw_obstacle ((skip_obstacle ^^ 0) e)))"
      unfolding always_rejected_def by blast
    then have rej: "\<not> check_obstacle ?e1 ?ob" by (simp add: skip_obstacle_def)
    with eq a have "po ?e1 n = Some e'" by simp
    from IH[OF this] have "\<not> (always_rejected ?e1 \<and> n \<noteq> 0)" .
    moreover from a have "always_rejected ?e1"
      using always_rejected_skip[of e] by (simp add: skip_obstacle_def)
    ultimately show False using a by simp
  qed
qed

lemma place_obstacles_diverges:
  assumes "always_rejected e" and "n \<noteq> 0"
  shows "place_obstacles e n = None"
proof (cases "place_obstacles e n")
  case None
  then show ?thesis .
next
  case (Some e')
  from place_obstacles_never_returns[OF this] assms show ?thesis by simp
qed

lemma reset_diverges:
  assumes "place_cores (e\<lparr>cores := [], obstacles := []\<rparr>) num_cores = Some (Inr e1)"
    and "always_rejected e1" and "num_obs \<noteq> 0"
  shows "reset e num_cores num_obs = None"
proof -
  from place_cores_nonempty[OF assms(1)] have "cores e1 \<noteq> []" by simp
  with assms(1) place_obstacles_diverges[OF assms(2,3)] show ?thesis
    by (simp add: reset_def)
qed

subsection \<open>A domain reduced to a point\<close>

lemma point_env_place_cores:
  "place_cores (point_env\<lparr>cores := [], obstacles := []\<rparr>) 1 = Some (Inr point_env_core)"
  apply (subst place_cores.simps)
  apply (simp add: draw_core_def uniform_def binomial_def check_core_def init_env_def
      point_env_def point_env_core_def)
  done

lemma point_env_core_skip: "skip_obstacle point_env_core = point_env_core"
  by (simp add: skip_obstacle_def draw_obstacle_def uniform_def point_env_core_def
      point_env_def init_env_def)

lemma point_env_core_funpow: "(skip_obstacle ^^ k) point_env_core = point_env_core"
  by (induction k) (simp_all add: point_env_core_skip)

lemma point_env_core_rejected: "always_rejected point_env_core"
  unfolding always_rejected_def point_env_core_funpow point_env_core_skip
  by (simp add: check_obstacle_def draw_obstacle_def uniform_def point_env_core_def
      point_env_def init_env_def core_obs_dis_def)

text \<open>
  C8, as the code has it. \<^verbatim>\<open>reset\<close> has no retry budget and no failure for an
  infeasible placement: when, once the cores are placed, the first obstacle candidate
  and every later one is rejected and \<open>num_obs\<close> is not zero, \<^verbatim>\<open>reset\<close> never
  returns.
\<close>

theorem reset_no_retry_budget:
  assumes "place_cores (e\<lparr>cores := [], obstacles := []\<rparr>) num_cores = Some (Inr e1)"
    and "always_rejected e1" and "num_obs \<noteq> 0"
  shows "reset e num_cores num_obs = None"
proof -
  from place_cores_nonempty[OF assms(1)] have "cores e1 \<noteq> []" by simp
  with assms(1) place_obstacles_diverges[OF assms(2,3)] show ?thesis
    by (simp add: reset_def)
qed

text \<open>In the domain reduced to a point, one core is placed at \<open>(0, 0)\<close>; every obstacle
  candidate is centred on it; two obstacles are asked for.\<close>

theorem reset_no_retry_budget_witness:
  "place_cores (point_env\<lparr>cores := [], obstacles := []\<rparr>) 1 = Some (Inr point_env_core)
   \<and> (2::int) \<noteq> 0
   \<and> reset point_env 1 2 = None"
  using reset_no_retry_budget [OF point_env_place_cores point_env_core_rejected, of 2]
  by (simp add: point_env_place_cores)

text \<open>
  The specification asks that an infeasible configuration ends in a
  \<^verbatim>\<open>PlacementInfeasible\<close> failure within a retry budget. In the domain reduced to a
  point, with one core and one obstacle asked for, \<^verbatim>\<open>reset\<close> ends in nothing.
\<close>

theorem reset_point_domain_never_returns: "reset point_env 1 1 = None"
  by (rule reset_diverges [OF point_env_place_cores point_env_core_rejected]) simp

section \<open>Opposite cores closer than two radii\<close>

lemma check_core_opposite_touching:
  assumes "clockwise ci \<noteq> clockwise cj" and "0 < env_r e"
    and "0 < Gamma ci" and "0 < Gamma cj" and "core_dis ci cj = 2 * env_r e"
  shows "2 * pi * (core_dis ci cj - 2 * env_r e) = 0"
    and "np_div (max (Gamma ci) (Gamma cj)) (2 * pi * (core_dis ci cj - 2 * env_r e)) = PInf"
    and "check_core_loop e [ci] cj = Inr False"
proof -
  show z: "2 * pi * (core_dis ci cj - 2 * env_r e) = 0" using assms(5) by simp
  from assms(3) have "0 < max (Gamma ci) (Gamma cj)" by simp
  then show v: "np_div (max (Gamma ci) (Gamma cj)) (2 * pi * (core_dis ci cj - 2 * env_r e)) = PInf"
    unfolding z by (simp add: np_div_def)
  from assms(1,2) show "check_core_loop e [ci] cj = Inr False"
    by (simp add: Let_def v)
qed

lemma np_div_nonzero: "b \<noteq> 0 \<Longrightarrow> np_div a b = Fin (a / b)"
  by (simp add: np_div_def)

lemma check_core_opposite_inside:
  assumes "clockwise ci \<noteq> clockwise cj" and "0 < env_r e" and "0 \<le> env_p e"
    and "0 < Gamma ci" and "0 < Gamma cj" and "core_dis ci cj < 2 * env_r e"
  shows "\<exists>v_1. v_1 < 0 \<and>
           np_div (max (Gamma ci) (Gamma cj)) (2 * pi * (core_dis ci cj - 2 * env_r e)) = Fin v_1"
    and "check_core_loop e [ci] cj = Inr True"
proof -
  let ?den = "2 * pi * (core_dis ci cj - 2 * env_r e)"
  let ?L = "max (Gamma ci) (Gamma cj)"
  let ?rhs = "env_p e * (min (Gamma ci) (Gamma cj) / (2 * pi * env_r e))"
  from assms(6) have den: "?den < 0" by (simp add: mult_pos_neg)
  then have "?den \<noteq> 0" by (rule less_imp_neq)
  then have v: "np_div ?L ?den = Fin (?L / ?den)" by (rule np_div_nonzero)
  from assms(4) have L: "0 < ?L" by simp
  from L den have neg: "?L / ?den < 0" by (rule divide_pos_neg)
  from v neg show "\<exists>v_1. v_1 < 0 \<and> np_div ?L ?den = Fin v_1" by blast
  from assms(4,5) have "0 < min (Gamma ci) (Gamma cj)" by simp
  with assms(2,3) have "0 \<le> ?rhs" by simp
  with neg have "\<not> ?rhs < ?L / ?den" by simp
  with assms(1,2) show "check_core_loop e [ci] cj = Inr True"
    by (simp add: Let_def v)
qed

subsection \<open>One accepted candidate\<close>

lemma place_cores_accept:
  assumes "draw_core e = (c, g)" and "check_core (e\<lparr>rd := g\<rparr>) c = Inr True"
  shows "place_cores e n =
           (if n - 1 = 0 then Some (Inr (e\<lparr>rd := g, cores := cores e @ [c]\<rparr>))
            else place_cores (e\<lparr>rd := g, cores := cores e @ [c]\<rparr>) (n - 1))"
  by (subst place_cores.simps) (simp add: assms)

lemma place_obstacles_accept:
  assumes "draw_obstacle e = (ob, g)" and "check_obstacle (e\<lparr>rd := g\<rparr>) ob"
  shows "place_obstacles e n =
           (if n - 1 = 0 then Some (e\<lparr>rd := g, obstacles := obstacles e @ [ob]\<rparr>)
            else place_obstacles (e\<lparr>rd := g, obstacles := obstacles e @ [ob]\<rparr>) (n - 1))"
  by (subst place_obstacles.simps) (simp add: assms)

lemma core_obs_far:
  assumes "b < \<bar>core_y c - obs_y ob\<bar>"
  shows "\<not> core_obs_dis c ob \<le> b"
proof -
  let ?dx = "core_x c - obs_x ob" and ?dy = "core_y c - obs_y ob"
  have "\<bar>?dy\<bar> = sqrt (?dy * ?dy)" by simp
  also have "\<dots> \<le> sqrt (?dx * ?dx + ?dy * ?dy)" by (rule real_sqrt_le_mono) simp
  finally show ?thesis using assms by (simp add: core_obs_dis_def Let_def)
qed

subsection \<open>The generated scenario\<close>

lemma close_place_cores:
  assumes "0 \<le> delta" and "delta < 1"
  shows "place_cores (init_env (close_stream delta)) 2 =
           Some (Inr ((init_env (4/5 ## 4/5 ## 0 ## sconst 0))\<lparr>cores := close_cores delta\<rparr>))"
proof -
  let ?c1 = "\<lparr>core_x = 20, core_y = 20, clockwise = False, Gamma = 5 * pi\<rparr>"
  let ?c2 = "\<lparr>core_x = 20 + delta, core_y = 20, clockwise = True, Gamma = 5 * pi\<rparr>"
  let ?g1 = "(20 + delta) / 50 ## 2/5 ## 3/4 ## 0 ## 4/5 ## 4/5 ## 0 ## sconst 0"
  let ?g2 = "4/5 ## 4/5 ## 0 ## sconst (0::real)"
  let ?e0 = "init_env (close_stream delta)"
  let ?e1 = "?e0\<lparr>rd := ?g1, cores := cores ?e0 @ [?c1]\<rparr>"
  let ?e2 = "?e1\<lparr>rd := ?g2, cores := cores ?e1 @ [?c2]\<rparr>"
  have dc0: "draw_core ?e0 = (?c1, ?g1)"
    by (simp add: draw_core_def uniform_def binomial_def init_env_def close_stream_def)
  have chk0: "check_core (?e0\<lparr>rd := ?g1\<rparr>) ?c1 = Inr True"
    by (simp add: check_core_def init_env_def)
  have dc1: "draw_core ?e1 = (?c2, ?g2)"
    by (simp add: draw_core_def uniform_def binomial_def init_env_def)
  have d: "core_dis ?c1 ?c2 = delta" using assms(1) by (simp add: core_dis_def)
  have "check_core_loop (?e1\<lparr>rd := ?g2\<rparr>) [?c1] ?c2 = Inr True"
    by (rule check_core_opposite_inside(2)) (simp_all add: d init_env_def assms)
  then have chk1: "check_core (?e1\<lparr>rd := ?g2\<rparr>) ?c2 = Inr True"
    by (simp add: check_core_def init_env_def)
  have "place_cores ?e0 2 = place_cores ?e1 1"
    using place_cores_accept[OF dc0 chk0, of 2] by simp
  also have "\<dots> = Some (Inr ?e2)"
    using place_cores_accept[OF dc1 chk1, of 1] by simp
  also have "?e2 = (init_env ?g2)\<lparr>cores := close_cores delta\<rparr>"
    by (simp add: init_env_def close_cores_def)
  finally show ?thesis .
qed

lemma close_place_obstacles:
  assumes "0 \<le> delta" and "delta < 1"
  shows "place_obstacles ((init_env (4/5 ## 4/5 ## 0 ## sconst 0))\<lparr>cores := close_cores delta\<rparr>) 1
           = Some (close_env delta)"
proof -
  let ?ob = "\<lparr>obs_x = 40, obs_y = 40, obs_r = 1\<rparr>"
  let ?e = "(init_env (4/5 ## 4/5 ## 0 ## sconst 0))\<lparr>cores := close_cores delta\<rparr>"
  have dr: "draw_obstacle ?e = (?ob, sconst 0)"
    by (simp add: draw_obstacle_def uniform_def init_env_def)
  have a: "\<not> core_obs_dis c ?ob \<le> 3 / 2" if "c \<in> set (close_cores delta)" for c
    using that by (intro core_obs_far) (auto simp: close_cores_def)
  have chk: "check_obstacle (?e\<lparr>rd := sconst 0\<rparr>) ?ob"
    using a by (simp add: check_obstacle_def close_cores_def init_env_def)
  have "place_obstacles ?e 1 = Some (?e\<lparr>rd := sconst 0, obstacles := obstacles ?e @ [?ob]\<rparr>)"
    using place_obstacles_accept[OF dr chk, of 1] by simp
  also have "?e\<lparr>rd := sconst 0, obstacles := obstacles ?e @ [?ob]\<rparr> = close_env delta"
    by (simp add: init_env_def close_env_def)
  finally show ?thesis .
qed

lemma close_reset:
  assumes "0 \<le> delta" and "delta < 1"
  shows "\<exists>v. reset (init_env (close_stream delta)) 2 1 = Some (Inr (close_env delta, v))"
proof -
  have c: "(init_env (close_stream delta))\<lparr>cores := [], obstacles := []\<rparr>
             = init_env (close_stream delta)"
    by (simp add: init_env_def)
  have n: "close_cores delta \<noteq> []" by (simp add: close_cores_def)
  have "2 \<le> length (cores (close_env delta))" "env_r (close_env delta) \<noteq> 0"
    by (simp_all add: close_env_def close_cores_def init_env_def)
  from get_velocity_total[OF this] obtain v where
    "get_velocity (close_env delta) (fst (initial (close_env delta)))
       (snd (initial (close_env delta))) = Inr v" by blast
  then have "reset (init_env (close_stream delta)) 2 1 = Some (Inr (close_env delta, v))"
    unfolding reset_def c
    by (simp add: close_place_cores[OF assms] close_place_obstacles[OF assms] n)
  then show ?thesis by blast
qed

text \<open>
  C10. In the opposite-rotation branch of \<^verbatim>\<open>check_core\<close>, for cores with positive
  circulation strengths at distance \<open>d\<close> (core radius \<open>r > 0\<close>, fraction \<open>p \<ge> 0\<close>):
  if \<open>d = 2 r\<close> the divisor of \<open>v_1\<close> is zero (the numpy division gives plus infinity
  and the candidate is rejected); if \<open>d < 2 r\<close> then \<open>v_1\<close> is negative, the
  comparison \<open>v_1 > p * v_2\<close> is false and the candidate is accepted. Hence, for every
  \<open>delta\<close> with \<open>0 \<le> delta < 1 = 2 r\<close>, zero included, there is a generator for which
  \<^verbatim>\<open>reset\<close> returns with two cores of opposite sense at distance \<open>delta\<close>.
\<close>

theorem check_core_opposite_close:
  assumes "clockwise ci \<noteq> clockwise cj" and "0 < env_r e" and "0 \<le> env_p e"
    and "0 < Gamma ci" and "0 < Gamma cj"
  shows "(core_dis ci cj = 2 * env_r e \<longrightarrow>
            2 * pi * (core_dis ci cj - 2 * env_r e) = 0 \<and>
            np_div (max (Gamma ci) (Gamma cj)) (2 * pi * (core_dis ci cj - 2 * env_r e)) = PInf \<and>
            check_core_loop e [ci] cj = Inr False)
       \<and> (core_dis ci cj < 2 * env_r e \<longrightarrow>
            (\<exists>v_1. v_1 < 0 \<and>
               np_div (max (Gamma ci) (Gamma cj)) (2 * pi * (core_dis ci cj - 2 * env_r e))
                 = Fin v_1) \<and>
            check_core_loop e [ci] cj = Inr True)
       \<and> (\<forall>delta. 0 \<le> delta \<and> delta < 1 \<longrightarrow>
            (\<exists>v. reset (init_env (close_stream delta)) 2 1 = Some (Inr (close_env delta, v))) \<and>
            cores (close_env delta) = close_cores delta \<and>
            2 * env_r (close_env delta) = 1 \<and>
            clockwise (close_cores delta ! 0) \<noteq> clockwise (close_cores delta ! 1) \<and>
            core_dis (close_cores delta ! 0) (close_cores delta ! 1) = delta)"
proof (intro conjI impI allI)
  assume "core_dis ci cj = 2 * env_r e"
  note t = check_core_opposite_touching[OF assms(1,2,4,5) this]
  show "2 * pi * (core_dis ci cj - 2 * env_r e) = 0" by (rule t(1))
  show "np_div (max (Gamma ci) (Gamma cj)) (2 * pi * (core_dis ci cj - 2 * env_r e)) = PInf"
    by (rule t(2))
  show "check_core_loop e [ci] cj = Inr False" by (rule t(3))
next
  assume "core_dis ci cj < 2 * env_r e"
  note t = check_core_opposite_inside[OF assms this]
  show "\<exists>v_1. v_1 < 0 \<and>
          np_div (max (Gamma ci) (Gamma cj)) (2 * pi * (core_dis ci cj - 2 * env_r e)) = Fin v_1"
    by (rule t(1))
  show "check_core_loop e [ci] cj = Inr True" by (rule t(2))
next
  fix delta :: real assume d: "0 \<le> delta \<and> delta < 1"
  then show "\<exists>v. reset (init_env (close_stream delta)) 2 1 = Some (Inr (close_env delta, v))"
    using close_reset[of delta] by blast
  show "cores (close_env delta) = close_cores delta" by (simp add: close_env_def)
  show "2 * env_r (close_env delta) = 1" by (simp add: close_env_def init_env_def)
  show "clockwise (close_cores delta ! 0) \<noteq> clockwise (close_cores delta ! 1)"
    by (simp add: close_cores_def)
  from d show "core_dis (close_cores delta ! 0) (close_cores delta ! 1) = delta"
    by (simp add: close_cores_def core_dis_def)
qed

text \<open>Two opposite cores at distance 1/2 pass the check, and a reset places two opposite
  cores on the same point.\<close>

theorem check_core_opposite_close_witness:
  "clockwise (close_cores (1/2) ! 0) \<noteq> clockwise (close_cores (1/2) ! 1)
   \<and> core_dis (close_cores (1/2) ! 0) (close_cores (1/2) ! 1) = 1 / 2
   \<and> 2 * env_r (init_env (sconst 0)) = 1
   \<and> check_core_loop (init_env (sconst 0)) [close_cores (1/2) ! 0] (close_cores (1/2) ! 1)
       = Inr True
   \<and> (\<exists>v. reset (init_env (close_stream 0)) 2 1 = Some (Inr (close_env 0, v)))
   \<and> cores (close_env 0) = close_cores 0
   \<and> core_dis (close_cores 0 ! 0) (close_cores 0 ! 1) = 0"
proof -
  let ?ci = "close_cores (1/2) ! 0" and ?cj = "close_cores (1/2) ! 1"
  let ?e = "init_env (sconst 0)"
  have h: "clockwise ?ci \<noteq> clockwise ?cj" "0 < env_r ?e" "0 \<le> env_p ?e"
    "0 < Gamma ?ci" "0 < Gamma ?cj"
    by (simp_all add: close_cores_def init_env_def)
  have d: "core_dis ?ci ?cj = 1 / 2" by (simp add: close_cores_def core_dis_def)
  have r: "2 * env_r ?e = 1" by (simp add: init_env_def)
  note t = check_core_opposite_close [OF h]
  have lt: "core_dis ?ci ?cj < 2 * env_r ?e" unfolding d r by simp
  from t lt have 1: "check_core_loop ?e [?ci] ?cj = Inr True" by blast
  from t have "(\<exists>v. reset (init_env (close_stream 0)) 2 1 = Some (Inr (close_env 0, v))) \<and>
            cores (close_env 0) = close_cores 0 \<and>
            core_dis (close_cores 0 ! 0) (close_cores 0 ! 1) = 0"
    by (metis less_numeral_extra(1) order_refl)
  with h(1) d r 1 show ?thesis by blast
qed

end
